theory Spec2Isabelle
  imports Main "HOL-Library.Char_ord" "HOL-Library.List_Lexorder" "HOL-Library.Sublist"
    "HOL-Library.Multiset"
begin

section \<open>Values: JSON, Python floats, dictionaries\<close>

text \<open>The exceptions that the modelled code can meet.\<close>

datatype exn = RedisError | ResponseError | OverflowError | ValueError | ZeroDivisionError

text \<open>
  A Python \<open>float\<close> is an IEEE-754 binary64 number. \<open>PyFloat m e\<close> stands for the
  number \<open>m * 2^e\<close> (\<open>PyFloat 0 0\<close> is \<open>0.0\<close>), \<open>PyNegZero\<close> for \<open>-0.0\<close>,
  \<open>PyInf s\<close> for an infinity (negative when \<open>s\<close>) and \<open>PyNaN\<close> for a NaN. Every
  arithmetic result is rounded to nearest, ties to even, to a significand of 53 bits whose
  last bit is worth at least \<open>2^-1074\<close> (so results below \<open>2^-1022\<close> are subnormal), is
  an infinity from \<open>2^1024\<close> on, and is brought to the form with an odd mantissa.
\<close>

datatype pyfloat = PyFloat int int | PyNegZero | PyInf bool | PyNaN

fun bitlen :: "nat \<Rightarrow> nat" where
  "bitlen n = (if n = 0 then 0 else Suc (bitlen (n div 2)))"

declare bitlen.simps [simp del]

function fnorm :: "int \<Rightarrow> int \<Rightarrow> pyfloat" where
  "fnorm m e = (if m = 0 then PyFloat 0 0
                else if even m then fnorm (m div 2) (e + 1)
                else PyFloat m e)"
  by pat_completeness auto
termination
  by (relation "measure (\<lambda>(m, e). nat \<bar>m\<bar>)") (auto elim!: evenE)

declare fnorm.simps [simp del]

text \<open>The binary64 number nearest to \<open>a * 2^e\<close>, negated when \<open>neg\<close>.\<close>

definition round64 :: "bool \<Rightarrow> nat \<Rightarrow> int \<Rightarrow> pyfloat" where
  "round64 neg a e =
     (let d = nat (max (int (bitlen a) - 53) (- 1074 - e));
          q = a div 2 ^ d;
          rem = a mod 2 ^ d;
          half = 2 ^ (d - 1);
          q' = (if 0 < d \<and> (half < rem \<or> (rem = half \<and> odd q)) then q + 1 else q)
      in if q' = 0 then (if neg then PyNegZero else PyFloat 0 0)
         else if 1024 < int (bitlen q') + (e + int d) then PyInf neg
         else fnorm (if neg then - int q' else int q') (e + int d))"

fun fsign :: "pyfloat \<Rightarrow> bool" where
  "fsign (PyFloat m e) = (m < 0)"
| "fsign PyNegZero = True"
| "fsign (PyInf s) = s"
| "fsign PyNaN = False"

fun fmant :: "pyfloat \<Rightarrow> int" where
  "fmant (PyFloat m e) = m"
| "fmant x = 0"

fun fexp :: "pyfloat \<Rightarrow> int" where
  "fexp (PyFloat m e) = e"
| "fexp x = 0"

fun is_inf :: "pyfloat \<Rightarrow> bool" where
  "is_inf (PyInf s) = True"
| "is_inf x = False"

fun is_zero :: "pyfloat \<Rightarrow> bool" where
  "is_zero (PyFloat m e) = (m = 0)"
| "is_zero PyNegZero = True"
| "is_zero x = False"

text \<open>
  \<open>float(i)\<close>, and the conversion of the \<open>int\<close> operand of a mixed operation: an
  integer that rounds to \<open>2^1024\<close> or beyond raises \<open>OverflowError\<close>.
\<close>

definition float_of_int :: "int \<Rightarrow> exn + pyfloat" where
  "float_of_int i =
     (case round64 (i < 0) (nat \<bar>i\<bar>) 0 of
        PyInf s \<Rightarrow> Inl OverflowError
      | x \<Rightarrow> Inr x)"

text \<open>
  \<open>a / b\<close> on two Python ints (true division, correctly rounded). The quotient is
  computed to at least 56 bits, with one more bit recording a non-zero remainder, and then
  rounded. A zero divisor raises \<open>ZeroDivisionError\<close>, a quotient that rounds to
  \<open>2^1024\<close> or beyond raises \<open>OverflowError\<close>; a zero quotient has the sign of the
  operands.
\<close>

definition true_div :: "int \<Rightarrow> int \<Rightarrow> exn + pyfloat" where
  "true_div a b =
     (if b = 0 then Inl ZeroDivisionError
      else
        let na = bitlen (nat \<bar>a\<bar>); nb = bitlen (nat \<bar>b\<bar>);
            k = nat (57 + int nb - int na);
            q = (nat \<bar>a\<bar> * 2 ^ k) div nat \<bar>b\<bar>;
            r = (nat \<bar>a\<bar> * 2 ^ k) mod nat \<bar>b\<bar>;
            m = 2 * q + (if r = 0 then 0 else 1)
        in case round64 ((a < 0) \<noteq> (b < 0)) m (- int k - 1) of
             PyInf s \<Rightarrow> Inl OverflowError
           | x \<Rightarrow> Inr x)"

text \<open>\<open>x * y\<close> on two floats; it never raises.\<close>

definition fmul :: "pyfloat \<Rightarrow> pyfloat \<Rightarrow> pyfloat" where
  "fmul x y =
     (if x = PyNaN \<or> y = PyNaN then PyNaN
      else if is_inf x \<or> is_inf y then
        (if is_zero x \<or> is_zero y then PyNaN else PyInf (fsign x \<noteq> fsign y))
      else round64 (fsign x \<noteq> fsign y) (nat \<bar>fmant x\<bar> * nat \<bar>fmant y\<bar>) (fexp x + fexp y))"

text \<open>\<open>x - y\<close> on two floats.\<close>

definition fsub :: "pyfloat \<Rightarrow> pyfloat \<Rightarrow> pyfloat" where
  "fsub x y =
     (if x = PyNaN \<or> y = PyNaN then PyNaN
      else if is_inf x then (if is_inf y \<and> fsign x = fsign y then PyNaN else x)
      else if is_inf y then PyInf (\<not> fsign y)
      else
        let e = min (fexp x) (fexp y);
            s = fmant x * 2 ^ nat (fexp x - e) - fmant y * 2 ^ nat (fexp y - e)
        in if s = 0 then (if fsign x \<and> \<not> fsign y then PyNegZero else PyFloat 0 0)
           else round64 (s < 0) (nat \<bar>s\<bar>) e)"

text \<open>
  \<open>int(x)\<close> on a float truncates toward zero; an infinity raises \<open>OverflowError\<close>, a
  NaN \<open>ValueError\<close>.
\<close>

fun py_int :: "pyfloat \<Rightarrow> exn + int" where
  "py_int (PyFloat m e) =
     Inr (if 0 \<le> e then m * 2 ^ nat e else sgn m * (\<bar>m\<bar> div 2 ^ nat (- e)))"
| "py_int PyNegZero = Inr 0"
| "py_int (PyInf s) = Inl OverflowError"
| "py_int PyNaN = Inl ValueError"

text \<open>
  The comparisons \<open>x <= i\<close> and \<open>x > i\<close> of a float with an int, exact as in Python;
  both are false for a NaN.
\<close>

fun float_le_int :: "pyfloat \<Rightarrow> int \<Rightarrow> bool" where
  "float_le_int (PyFloat m e) i =
     (if 0 \<le> e then m * 2 ^ nat e \<le> i else m \<le> i * 2 ^ nat (- e))"
| "float_le_int PyNegZero i = (0 \<le> i)"
| "float_le_int (PyInf s) i = s"
| "float_le_int PyNaN i = False"

fun float_gt_int :: "pyfloat \<Rightarrow> int \<Rightarrow> bool" where
  "float_gt_int (PyFloat m e) i =
     (if 0 \<le> e then i < m * 2 ^ nat e else i * 2 ^ nat (- e) < m)"
| "float_gt_int PyNegZero i = (i < 0)"
| "float_gt_int (PyInf s) i = (\<not> s)"
| "float_gt_int PyNaN i = False"

text \<open>A number that is an \<open>int\<close> or a \<open>float\<close>, with the same two comparisons.\<close>

datatype pynum = PInt int | PFloat pyfloat

fun num_le_int :: "pynum \<Rightarrow> int \<Rightarrow> bool" where
  "num_le_int (PInt a) i = (a \<le> i)"
| "num_le_int (PFloat x) i = float_le_int x i"

fun num_gt_int :: "pynum \<Rightarrow> int \<Rightarrow> bool" where
  "num_gt_int (PInt a) i = (i < a)"
| "num_gt_int (PFloat x) i = float_gt_int x i"

datatype json = JNull | JBool bool | JInt int | JFloat pyfloat | JStr string

text \<open>
  A Python \<open>dict\<close> with string keys, as the list of its items in insertion order;
  \<open>d.get(k)\<close> is \<open>map_of d k\<close>.
\<close>

type_synonym pydict = "(string \<times> json) list"

section \<open>Configuration and the outside world\<close>

text \<open>The entries of \<open>CONFIG\<close> that the modelled functions read.\<close>

record config =
  MAX_IMAGE_SIZE :: int
  MAX_VIDEO_DURATION :: int
  OUTPUT_DIR :: string

definition default_CONFIG :: config where
  "default_CONFIG =
     \<lparr>MAX_IMAGE_SIZE = 1024, MAX_VIDEO_DURATION = 30, OUTPUT_DIR = ''/app/outputs''\<rparr>"

text \<open>The \<open>lora\<close> field of a request body: a string (URL or base64) or an object.\<close>

datatype lora_data = LoraStr string | LoraDict pydict

text \<open>
  What the program calls but does not contain: the digests of \<open>hashlib\<close>, the text
  rendering of \<open>json.dumps\<close> (of the items in the order given) and of \<open>str\<close> on a
  dict, the outcome of \<open>LoRAManager.process_lora\<close> (it downloads or decodes a file,
  validates it and returns its path or \<open>None\<close>; it catches every exception), and
  \<open>os.path.exists\<close> on a path, and \<open>os.path.exists\<close> on an integer, which takes it
  for a file descriptor and answers or (\<open>None\<close>) raises. They are parameters of the
  model; every theorem holds for all of them.
\<close>

record extern =
  md5_hexdigest :: "string \<Rightarrow> string"
  sha256_hexdigest :: "string \<Rightarrow> string"
  json_dumps :: "pydict \<Rightarrow> string"
  repr_dict :: "pydict \<Rightarrow> string"
  process_lora :: "lora_data \<Rightarrow> string \<Rightarrow> string option"
  path_exists :: "string \<Rightarrow> bool"
  fd_exists :: "int \<Rightarrow> bool option"

section \<open>The Redis store\<close>

text \<open>
  A stored value is the bytes of an integer (\<open>setex(key, ttl, 1)\<close>, \<open>incr\<close>) or the
  JSON text of a dict (\<open>json.dumps\<close>), which \<open>json.loads\<close> reads back as the same
  dict. Each key carries its expiry time, if it has one, and is served until the clock has
  passed it. The clock counts seconds and also serves as \<open>time.time()\<close>. \<open>faults\<close>
  lists, call by call, whether the next store operation raises (an empty list: none does).
  \<open>trace\<close> is a record of the run, not part of the program: every write that took
  effect and every exception a store operation raised, in order.
\<close>

datatype redis_value = RInt int | RJson pydict

datatype redis_event = Wrote string redis_value | Raised

record redis =
  kv :: "string \<Rightarrow> (redis_value \<times> nat option) option"
  clock :: nat
  faults :: "bool list"
  trace :: "redis_event list"

definition tick :: "nat \<Rightarrow> redis \<Rightarrow> redis" where
  "tick d r = r\<lparr>clock := clock r + d\<rparr>"

definition live :: "nat \<Rightarrow> redis_value \<times> nat option \<Rightarrow> bool" where
  "live now ent = (case snd ent of None \<Rightarrow> True | Some t \<Rightarrow> now \<le> t)"

definition lookup :: "redis \<Rightarrow> string \<Rightarrow> (redis_value \<times> nat option) option" where
  "lookup r k =
     (case kv r k of
        None \<Rightarrow> None
      | Some ent \<Rightarrow> if live (clock r) ent then Some ent else None)"

text \<open>Starting a store operation: take the next fault flag; a fault is logged.\<close>

definition redis_call :: "redis \<Rightarrow> bool \<times> redis" where
  "redis_call r =
     (case faults r of
        [] \<Rightarrow> (False, r)
      | b # bs \<Rightarrow>
          (b, r\<lparr>faults := bs, trace := (if b then trace r @ [Raised] else trace r)\<rparr>))"

definition redis_get :: "string \<Rightarrow> redis \<Rightarrow> (exn + redis_value option) \<times> redis" where
  "redis_get k r =
     (case redis_call r of
        (True, r') \<Rightarrow> (Inl RedisError, r')
      | (False, r') \<Rightarrow> (Inr (map_option fst (lookup r' k)), r'))"

definition redis_setex :: "string \<Rightarrow> nat \<Rightarrow> redis_value \<Rightarrow> redis \<Rightarrow> (exn + unit) \<times> redis" where
  "redis_setex k ttl v r =
     (case redis_call r of
        (True, r') \<Rightarrow> (Inl RedisError, r')
      | (False, r') \<Rightarrow>
          (Inr (), r'\<lparr>kv := (kv r')(k \<mapsto> (v, Some (clock r' + ttl))),
                       trace := trace r' @ [Wrote k v]\<rparr>))"

text \<open>
  \<open>INCR\<close>: a missing (or expired) key is created with value 1 and no expiry; an
  integer is incremented and keeps its expiry; any other value is an error.
\<close>

definition redis_incr :: "string \<Rightarrow> redis \<Rightarrow> (exn + int) \<times> redis" where
  "redis_incr k r =
     (case redis_call r of
        (True, r') \<Rightarrow> (Inl RedisError, r')
      | (False, r') \<Rightarrow>
          (case lookup r' k of
             None \<Rightarrow>
               (Inr 1, r'\<lparr>kv := (kv r')(k \<mapsto> (RInt 1, None)),
                           trace := trace r' @ [Wrote k (RInt 1)]\<rparr>)
           | Some (RInt n, ex) \<Rightarrow>
               (Inr (n + 1), r'\<lparr>kv := (kv r')(k \<mapsto> (RInt (n + 1), ex)),
                                 trace := trace r' @ [Wrote k (RInt (n + 1))]\<rparr>)
           | Some (RJson d, ex) \<Rightarrow>
               (Inl ResponseError, r'\<lparr>trace := trace r' @ [Raised]\<rparr>)))"

section \<open>utils.py: CacheManager\<close>

definition cache_ttl :: nat where
  "cache_ttl = 3600 * 24"

definition task_ttl :: nat where
  "task_ttl = 3600 * 2"

text \<open>Truth value of \<open>lora_data\<close> in \<open>if lora_data\<close>: \<open>None\<close>, \<open>''\<close> and \<open>{}\<close> are false.\<close>

fun lora_truthy :: "lora_data option \<Rightarrow> bool" where
  "lora_truthy None = False"
| "lora_truthy (Some (LoraStr s)) = (s \<noteq> [])"
| "lora_truthy (Some (LoraDict d)) = (d \<noteq> [])"

text \<open>\<open>str(lora_data)\<close>: a string is itself, a dict is rendered by \<open>repr\<close>.\<close>

fun py_str :: "extern \<Rightarrow> lora_data option \<Rightarrow> string" where
  "py_str X None = ''None''"
| "py_str X (Some (LoraStr s)) = s"
| "py_str X (Some (LoraDict d)) = repr_dict X d"

text \<open>The dict \<open>cache_data\<close> of \<open>generate_cache_key\<close>, in the order of the source.\<close>

definition cache_data ::
  "extern \<Rightarrow> string \<Rightarrow> int \<Rightarrow> int \<Rightarrow> int \<Rightarrow> pyfloat \<Rightarrow> int option \<Rightarrow> lora_data option \<Rightarrow> pydict"
where
  "cache_data X prompt width height steps guidance seed lora_data =
     [(''prompt'', JStr prompt),
      (''width'', JInt width),
      (''height'', JInt height),
      (''steps'', JInt steps),
      (''guidance'', JFloat guidance),
      (''seed'', (case seed of None \<Rightarrow> JNull | Some s \<Rightarrow> JInt s)),
      (''lora'', (if lora_truthy lora_data
                  then JStr (md5_hexdigest X (py_str X lora_data))
                  else JNull))]"

text \<open>\<open>json.dumps(d, sort_keys=True)\<close>: the items sorted by key, then rendered.\<close>

definition dumps_sorted :: "extern \<Rightarrow> pydict \<Rightarrow> string" where
  "dumps_sorted X d = json_dumps X (sort_key fst d)"

definition cache_key_of :: "extern \<Rightarrow> pydict \<Rightarrow> string" where
  "cache_key_of X d = ''flux_cache:'' @ sha256_hexdigest X (dumps_sorted X d)"

definition generate_cache_key ::
  "extern \<Rightarrow> string \<Rightarrow> int \<Rightarrow> int \<Rightarrow> int \<Rightarrow> pyfloat \<Rightarrow> int option \<Rightarrow> lora_data option \<Rightarrow> string"
where
  "generate_cache_key X prompt width height steps guidance seed lora_data =
     cache_key_of X (cache_data X prompt width height steps guidance seed lora_data)"

text \<open>
  \<open>get_cached_result\<close>: the value read back by \<open>json.loads\<close>, \<open>None\<close> when the key
  is missing and also when the store raises.
\<close>

definition get_cached_result :: "string \<Rightarrow> redis \<Rightarrow> redis_value option \<times> redis" where
  "get_cached_result cache_key r =
     (case redis_get cache_key r of
        (Inl e, r') \<Rightarrow> (None, r')
      | (Inr None, r') \<Rightarrow> (None, r')
      | (Inr (Some cached_data), r') \<Rightarrow> (Some cached_data, r'))"

definition cache_result :: "string \<Rightarrow> pydict \<Rightarrow> redis \<Rightarrow> redis" where
  "cache_result cache_key result_data r =
     snd (redis_setex cache_key cache_ttl (RJson result_data) r)"

definition task_key :: "string \<Rightarrow> string" where
  "task_key task_id = ''task:'' @ task_id"

definition now_float :: "redis \<Rightarrow> pyfloat" where
  "now_float r = round64 False (clock r) 0"

definition update_task_status :: "string \<Rightarrow> string \<Rightarrow> pydict \<Rightarrow> redis \<Rightarrow> redis" where
  "update_task_status task_id status kwargs r =
     (let task_data =
            [(''task_id'', JStr task_id),
             (''status'', JStr status),
             (''updated_at'', JFloat (now_float r))] @ kwargs
      in snd (redis_setex (task_key task_id) task_ttl (RJson task_data) r))"

definition get_task_info :: "string \<Rightarrow> redis \<Rightarrow> redis_value option \<times> redis" where
  "get_task_info task_id r =
     (case redis_get (task_key task_id) r of
        (Inl e, r') \<Rightarrow> (None, r')
      | (Inr None, r') \<Rightarrow> (None, r')
      | (Inr (Some task_data), r') \<Rightarrow> (Some task_data, r'))"

section \<open>utils.py: SecurityManager\<close>

definition rate_limit_window :: nat where
  "rate_limit_window = 60"

definition valid_api_keys :: "(string \<times> pydict) list" where
  "valid_api_keys =
     [(''flux-api-key-demo'',
         [(''user_id'', JStr ''demo_user''), (''tier'', JStr ''basic''),
          (''rate_limit'', JInt 10)]),
      (''flux-api-key-premium'',
         [(''user_id'', JStr ''premium_user''), (''tier'', JStr ''premium''),
          (''rate_limit'', JInt 100)])]"

text \<open>
  The ceiling that \<open>check_rate_limit\<close> looks up: the \<open>rate_limit\<close> of the first entry
  of \<open>valid_api_keys\<close> with this \<open>user_id\<close>, 10 when there is none.
\<close>

definition rate_limit_of :: "string \<Rightarrow> int" where
  "rate_limit_of user_id =
     (case find (\<lambda>info. map_of info ''user_id'' = Some (JStr user_id))
             (map snd valid_api_keys) of
        None \<Rightarrow> 10
      | Some user_info \<Rightarrow>
          (case map_of user_info ''rate_limit'' of Some (JInt n) \<Rightarrow> n | _ \<Rightarrow> 10))"

definition rate_key :: "string \<Rightarrow> string \<Rightarrow> string" where
  "rate_key user_id endpoint_type = ''rate_limit:'' @ user_id @ '':'' @ endpoint_type"

text \<open>
  \<open>check_rate_limit\<close>. Every exception inside its \<open>try\<close> ends in \<open>return True\<close>: a
  store operation that raises, and \<open>int()\<close> on a value that is not an integer.
\<close>

definition check_rate_limit :: "string \<Rightarrow> string \<Rightarrow> redis \<Rightarrow> bool \<times> redis" where
  "check_rate_limit user_id endpoint_type r =
     (let key = rate_key user_id endpoint_type in
      case redis_get key r of
        (Inl e, r1) \<Rightarrow> (True, r1)
      | (Inr None, r1) \<Rightarrow> (True, snd (redis_setex key rate_limit_window (RInt 1) r1))
      | (Inr (Some (RJson d)), r1) \<Rightarrow> (True, r1)
      | (Inr (Some (RInt current_count)), r1) \<Rightarrow>
          if rate_limit_of user_id \<le> current_count then (False, r1)
          else (True, snd (redis_incr key r1)))"

section \<open>app.py: estimates\<close>

text \<open>
  \<open>estimate_generation_time\<close>. The two divisions come first, then
  \<open>base_time * pixel_factor\<close> (which converts \<open>base_time\<close>), the second product and
  \<open>int\<close>; each of them can raise.
\<close>

definition estimate_generation_time :: "int \<Rightarrow> int \<Rightarrow> int \<Rightarrow> exn + int" where
  "estimate_generation_time width height num_steps =
     (let base_time = 10 in
      case true_div (width * height) (512 * 512) of
        Inl e \<Rightarrow> Inl e
      | Inr pixel_factor \<Rightarrow>
          (case true_div num_steps 50 of
             Inl e \<Rightarrow> Inl e
           | Inr step_factor \<Rightarrow>
               (case float_of_int base_time of
                  Inl e \<Rightarrow> Inl e
                | Inr b \<Rightarrow> py_int (fmul (fmul b pixel_factor) step_factor))))"

text \<open>
  \<open>int(duration * fps)\<close>: \<open>duration\<close> is the float of the request or, when that
  exceeds it, the integer \<open>MAX_VIDEO_DURATION\<close>.
\<close>

fun video_frames :: "pynum \<Rightarrow> int \<Rightarrow> exn + int" where
  "video_frames (PInt d) fps = Inr (d * fps)"
| "video_frames (PFloat d) fps =
     (case float_of_int fps of
        Inl e \<Rightarrow> Inl e
      | Inr f \<Rightarrow> py_int (fmul d f))"

definition estimate_video_generation_time ::
  "pynum \<Rightarrow> int \<Rightarrow> int \<Rightarrow> int \<Rightarrow> exn + int"
where
  "estimate_video_generation_time duration width height fps =
     (case video_frames duration fps of
        Inl e \<Rightarrow> Inl e
      | Inr frames \<Rightarrow>
          (case estimate_generation_time width height 20 of
             Inl e \<Rightarrow> Inl e
           | Inr t \<Rightarrow>
               (case true_div t 4 of
                  Inl e \<Rightarrow> Inl e
                | Inr time_per_frame \<Rightarrow>
                    (case float_of_int frames of
                       Inl e \<Rightarrow> Inl e
                     | Inr f \<Rightarrow> py_int (fmul f time_per_frame)))))"

text \<open>\<open>str\<close> of an integer, for the messages built by f-strings.\<close>

fun show_nat :: "nat \<Rightarrow> string" where
  "show_nat n =
     (if n < 10 then [char_of (48 + n)]
      else show_nat (n div 10) @ [char_of (48 + n mod 10)])"

declare show_nat.simps [simp del]

definition show_int :: "int \<Rightarrow> string" where
  "show_int i = (if i < 0 then ''-'' @ show_nat (nat (- i)) else show_nat (nat i))"

section \<open>app.py: requests, responses, jobs\<close>

text \<open>
  The JSON body of a request, with the types the endpoints' docstrings give; \<open>None\<close> is
  a field that is absent (for \<open>seed\<close> and \<open>lora\<close> also an explicit \<open>null\<close>). The
  body \<open>{}\<close> has every field \<open>None\<close>.
\<close>

record request =
  data_prompt :: "string option"
  data_duration :: "pyfloat option"
  data_lora :: "lora_data option"
  data_width :: "int option"
  data_height :: "int option"
  data_num_inference_steps :: "int option"
  data_guidance_scale :: "pyfloat option"
  data_fps :: "int option"
  data_seed :: "int option"

text \<open>
  A response is \<open>jsonify(body), status\<close> or \<open>send_file(path, download_name)\<close>. The
  messages are written without their accents.
\<close>

datatype response = Json nat pydict | SendFile string string

definition error_response :: "nat \<Rightarrow> string \<Rightarrow> response" where
  "error_response code msg = Json code [(''error'', JStr msg)]"

definition internal_error :: response where
  "internal_error = error_response 500 ''Erro interno do servidor''"

definition task_not_found :: response where
  "task_not_found = error_response 404 ''Tarefa nao encontrada''"

text \<open>
  The keyword arguments of \<open>generate_image_task.delay\<close> and
  \<open>generate_video_task.delay\<close>, in the order of the source.
\<close>

datatype job =
  ImageJob string string int int int pyfloat "int option" "string option" string string
| VideoJob string string pynum int int int "int option" "string option" string

fun job_task_id :: "job \<Rightarrow> string" where
  "job_task_id (ImageJob task_id prompt width height steps guidance seed lora_path cache_key
      user_id) = task_id"
| "job_task_id (VideoJob task_id prompt duration width height fps seed lora_path user_id) =
     task_id"

definition opt_json_int :: "int option \<Rightarrow> json" where
  "opt_json_int v = (case v of None \<Rightarrow> JNull | Some i \<Rightarrow> JInt i)"

section \<open>app.py: the submission endpoints\<close>

text \<open>
  \<open>delay\<close> sends the job to the Celery broker, which is the same Redis server: one
  more store operation, which can raise.
\<close>

definition publish :: "redis \<Rightarrow> (exn + unit) \<times> redis" where
  "publish r =
     (case redis_call r of
        (True, r') \<Rightarrow> (Inl RedisError, r')
      | (False, r') \<Rightarrow> (Inr (), r'))"

text \<open>
  The tail of \<open>generate_image\<close> after a cache miss (it is reached from three branches
  of the test \<open>if cached_result\<close>): process the LoRA, hand the job to Celery, answer.
  An exception of \<open>delay\<close> or of the estimate reaches the handler's \<open>except\<close>, which
  answers 500; the estimate is computed after the job has been handed over.
\<close>

definition generate_image_miss ::
  "extern \<Rightarrow> string \<Rightarrow> string \<Rightarrow> string \<Rightarrow> string \<Rightarrow> int \<Rightarrow> int \<Rightarrow> int \<Rightarrow> pyfloat
     \<Rightarrow> int option \<Rightarrow> lora_data option \<Rightarrow> string \<Rightarrow> redis \<Rightarrow> response \<times> job option \<times> redis"
where
  "generate_image_miss X user_id task_id celery_id prompt width height num_inference_steps
       guidance_scale seed lora_data cache_key r =
     (let lora_path =
            (case lora_data of
               None \<Rightarrow> None
             | Some l \<Rightarrow> if lora_truthy lora_data then process_lora X l task_id else None);
          job = ImageJob task_id prompt width height num_inference_steps guidance_scale seed
                  lora_path cache_key user_id
      in case publish r of
           (Inl e, r') \<Rightarrow> (internal_error, None, r')
         | (Inr u, r') \<Rightarrow>
             (case estimate_generation_time width height num_inference_steps of
                Inl e \<Rightarrow> (internal_error, Some job, r')
              | Inr estimated_time \<Rightarrow>
                  (Json 200
                     [(''task_id'', JStr task_id),
                      (''status'', JStr ''processing''),
                      (''estimated_time'', JInt estimated_time),
                      (''celery_task_id'', JStr celery_id)],
                   Some job, r')))"

text \<open>
  The part of \<open>generate_image\<close> that follows the validation: compute the cache key,
  look the result up, answer from the cache or go on to the miss. \<open>if cached_result\<close>
  is false for \<open>None\<close>, for an empty dict and for the number 0; subscripting a number,
  or a dict without \<open>image_url\<close>, raises, which the handler answers with 500.
\<close>

definition generate_image_lookup ::
  "extern \<Rightarrow> string \<Rightarrow> string \<Rightarrow> string \<Rightarrow> string \<Rightarrow> int \<Rightarrow> int \<Rightarrow> int \<Rightarrow> pyfloat
     \<Rightarrow> int option \<Rightarrow> lora_data option \<Rightarrow> redis \<Rightarrow> response \<times> job option \<times> redis"
where
  "generate_image_lookup X user_id task_id celery_id prompt width height num_inference_steps
       guidance_scale seed lora_data r1 =
     (let cache_key = generate_cache_key X prompt width height num_inference_steps
                        guidance_scale seed lora_data
      in
      case get_cached_result cache_key r1 of
        (Some (RJson cached_result), r2) \<Rightarrow>
          if cached_result = [] then
            generate_image_miss X user_id task_id celery_id prompt width height
              num_inference_steps guidance_scale seed lora_data cache_key r2
          else
            (case map_of cached_result ''image_url'' of
               None \<Rightarrow> (internal_error, None, r2)
             | Some image_url \<Rightarrow>
                 (Json 200
                    [(''task_id'', JStr task_id),
                     (''status'', JStr ''completed''),
                     (''image_url'', image_url),
                     (''cached'', JBool True),
                     (''generation_time'', JInt 0)],
                  None, r2))
      | (Some (RInt n), r2) \<Rightarrow>
          if n = 0 then
            generate_image_miss X user_id task_id celery_id prompt width height
              num_inference_steps guidance_scale seed lora_data cache_key r2
          else (internal_error, None, r2)
      | (None, r2) \<Rightarrow>
          generate_image_miss X user_id task_id celery_id prompt width height
            num_inference_steps guidance_scale seed lora_data cache_key r2)"

text \<open>
  \<open>generate_image\<close>. \<open>user_id\<close> is the JWT identity, \<open>task_id\<close> the value of
  \<open>uuid.uuid4()\<close>, \<open>celery_id\<close> the id that \<open>delay\<close> returns. The result is the
  response, the job handed to Celery (if any) and the store.
\<close>

definition generate_image ::
  "config \<Rightarrow> extern \<Rightarrow> string \<Rightarrow> request \<Rightarrow> string \<Rightarrow> string \<Rightarrow> redis
     \<Rightarrow> response \<times> job option \<times> redis"
where
  "generate_image C X user_id data task_id celery_id r =
     (case check_rate_limit user_id ''image'' r of
        (False, r1) \<Rightarrow> (error_response 429 ''Rate limit excedido'', None, r1)
      | (True, r1) \<Rightarrow>
         (case data_prompt data of
            None \<Rightarrow> (error_response 400 ''Prompt e obrigatorio'', None, r1)
          | Some prompt \<Rightarrow>
             let width = min (case data_width data of None \<Rightarrow> 512 | Some w \<Rightarrow> w)
                             (MAX_IMAGE_SIZE C);
                 height = min (case data_height data of None \<Rightarrow> 512 | Some h \<Rightarrow> h)
                              (MAX_IMAGE_SIZE C);
                 num_inference_steps =
                   (case data_num_inference_steps data of None \<Rightarrow> 50 | Some n \<Rightarrow> n);
                 guidance_scale =
                   (case data_guidance_scale data of None \<Rightarrow> PyFloat 15 (- 1) | Some g \<Rightarrow> g);
                 seed = data_seed data;
                 lora_data = data_lora data
             in
             if 1000 < length prompt then
               (error_response 400 ''Prompt muito longo (maximo 1000 caracteres)'', None, r1)
             else if num_inference_steps < 1 \<or> 100 < num_inference_steps then
               (error_response 400 ''num_inference_steps deve estar entre 1 e 100'', None, r1)
             else
               generate_image_lookup X user_id task_id celery_id prompt width height
                 num_inference_steps guidance_scale seed lora_data r1))"

text \<open>
  \<open>min(float(data['duration']), MAX_VIDEO_DURATION)\<close>: the integer maximum when it is
  less than the first argument, else the first argument.
\<close>

definition min_duration :: "pyfloat \<Rightarrow> int \<Rightarrow> pynum" where
  "min_duration d mx = (if float_gt_int d mx then PInt mx else PFloat d)"

text \<open>The tail of \<open>generate_video\<close> after the validation, like that of \<open>generate_image\<close>.\<close>

definition generate_video_start ::
  "extern \<Rightarrow> string \<Rightarrow> string \<Rightarrow> string \<Rightarrow> string \<Rightarrow> pynum \<Rightarrow> int \<Rightarrow> int \<Rightarrow> int
     \<Rightarrow> int option \<Rightarrow> lora_data option \<Rightarrow> redis \<Rightarrow> response \<times> job option \<times> redis"
where
  "generate_video_start X user_id task_id celery_id prompt duration width height fps seed
       lora_data r =
     (let lora_path =
            (case lora_data of
               None \<Rightarrow> None
             | Some l \<Rightarrow> if lora_truthy lora_data then process_lora X l task_id else None);
          job = VideoJob task_id prompt duration width height fps seed lora_path user_id
      in case publish r of
           (Inl e, r') \<Rightarrow> (internal_error, None, r')
         | (Inr u, r') \<Rightarrow>
             (case estimate_video_generation_time duration width height fps of
                Inl e \<Rightarrow> (internal_error, Some job, r')
              | Inr estimated_time \<Rightarrow>
                  (Json 200
                     [(''task_id'', JStr task_id),
                      (''status'', JStr ''processing''),
                      (''estimated_time'', JInt estimated_time),
                      (''celery_task_id'', JStr celery_id)],
                   Some job, r')))"

definition generate_video ::
  "config \<Rightarrow> extern \<Rightarrow> string \<Rightarrow> request \<Rightarrow> string \<Rightarrow> string \<Rightarrow> redis
     \<Rightarrow> response \<times> job option \<times> redis"
where
  "generate_video C X user_id data task_id celery_id r =
     (case check_rate_limit user_id ''video'' r of
        (False, r1) \<Rightarrow> (error_response 429 ''Rate limit excedido'', None, r1)
      | (True, r1) \<Rightarrow>
         (case (data_prompt data, data_duration data) of
            (Some prompt, Some d) \<Rightarrow>
             let duration = min_duration d (MAX_VIDEO_DURATION C);
                 width = min (case data_width data of None \<Rightarrow> 512 | Some w \<Rightarrow> w)
                             (MAX_IMAGE_SIZE C);
                 height = min (case data_height data of None \<Rightarrow> 512 | Some h \<Rightarrow> h)
                              (MAX_IMAGE_SIZE C);
                 fps = (case data_fps data of None \<Rightarrow> 24 | Some f \<Rightarrow> f);
                 seed = data_seed data;
                 lora_data = data_lora data
             in
             if num_le_int duration 0 \<or> num_gt_int duration (MAX_VIDEO_DURATION C) then
               (error_response 400
                  (''Duration deve estar entre 0 e '' @ show_int (MAX_VIDEO_DURATION C)
                     @ '' segundos''),
                None, r1)
             else if fps < 1 \<or> 60 < fps then
               (error_response 400 ''FPS deve estar entre 1 e 60'', None, r1)
             else
               generate_video_start X user_id task_id celery_id prompt duration width height
                 fps seed lora_data r1
          | _ \<Rightarrow> (error_response 400 ''Prompt e duration sao obrigatorios'', None, r1)))"

section \<open>app.py: the task endpoints\<close>

text \<open>
  \<open>get_task_status\<close>. \<open>not task_info\<close> holds for \<open>None\<close>, for an empty dict and
  for the number 0; \<open>.get\<close> on a number other than 0 raises, which the handler turns
  into the answer 500.
\<close>

definition get_task_status :: "string \<Rightarrow> string \<Rightarrow> redis \<Rightarrow> response \<times> redis" where
  "get_task_status task_id user_id r =
     (case get_task_info task_id r of
        (None, r') \<Rightarrow> (task_not_found, r')
      | (Some (RInt n), r') \<Rightarrow> (if n = 0 then task_not_found else internal_error, r')
      | (Some (RJson task_info), r') \<Rightarrow>
          if task_info = [] \<or> map_of task_info ''user_id'' \<noteq> Some (JStr user_id)
          then (task_not_found, r')
          else (Json 200 task_info, r'))"

text \<open>\<open>file_path.split('.')[-1]\<close>: what follows the last dot.\<close>

definition last_segment :: "string \<Rightarrow> string" where
  "last_segment s = rev (takeWhile (\<lambda>c. c \<noteq> CHR ''.'') (rev s))"

text \<open>
  \<open>get_task_result\<close>. The worker stores \<open>output_path\<close> as a string. A record with
  a falsy value there is answered 404; with a number that is not zero,
  \<open>os.path.exists\<close> raises on a float and takes an integer (\<open>True\<close> is 1) for a file
  descriptor, and if it answers true \<open>file_path.split\<close> raises: the handler answers 500.
\<close>

definition get_task_result :: "extern \<Rightarrow> string \<Rightarrow> string \<Rightarrow> redis \<Rightarrow> response \<times> redis" where
  "get_task_result X task_id user_id r =
     (let not_found = error_response 404 ''Arquivo de resultado nao encontrado'' in
      case get_task_info task_id r of
        (None, r') \<Rightarrow> (task_not_found, r')
      | (Some (RInt n), r') \<Rightarrow> (if n = 0 then task_not_found else internal_error, r')
      | (Some (RJson task_info), r') \<Rightarrow>
          if task_info = [] \<or> map_of task_info ''user_id'' \<noteq> Some (JStr user_id)
          then (task_not_found, r')
          else
            (case map_of task_info ''status'' of
               None \<Rightarrow> (internal_error, r')
             | Some st \<Rightarrow>
                 if st \<noteq> JStr ''completed'' then
                   (error_response 400 ''Tarefa ainda nao foi completada'', r')
                 else
                   (case map_of task_info ''output_path'' of
                      None \<Rightarrow> (not_found, r')
                    | Some JNull \<Rightarrow> (not_found, r')
                    | Some (JStr file_path) \<Rightarrow>
                        if file_path = [] \<or> \<not> path_exists X file_path then (not_found, r')
                        else
                          (SendFile file_path (task_id @ ''.'' @ last_segment file_path), r')
                    | Some (JInt n) \<Rightarrow>
                        if n = 0 \<or> fd_exists X n = Some False then (not_found, r')
                        else (internal_error, r')
                    | Some (JBool b) \<Rightarrow>
                        if \<not> b \<or> fd_exists X 1 = Some False then (not_found, r')
                        else (internal_error, r')
                    | Some (JFloat x) \<Rightarrow>
                        if is_zero x then (not_found, r') else (internal_error, r'))))"

section \<open>app.py: the Celery tasks\<close>

text \<open>
  What happens between the first status update and the end of a task is outside the
  program: loading the model and the LoRA, generating, saving the file. It either goes
  through or raises with a message, and takes some seconds.
\<close>

datatype generation = Succeeds nat | Fails nat string

definition generate_image_task ::
  "config \<Rightarrow> generation \<Rightarrow> string \<Rightarrow> string \<Rightarrow> int \<Rightarrow> int \<Rightarrow> int \<Rightarrow> pyfloat \<Rightarrow> int option
     \<Rightarrow> string option \<Rightarrow> string \<Rightarrow> string \<Rightarrow> redis \<Rightarrow> (string + pydict) \<times> redis"
where
  "generate_image_task C gen task_id prompt width height num_inference_steps guidance_scale
       seed lora_path cache_key user_id r =
     (let r1 = update_task_status task_id ''processing'' [(''user_id'', JStr user_id)] r;
          start_time = now_float r1
      in case gen of
           Fails dt msg \<Rightarrow>
             (Inl msg,
              update_task_status task_id ''failed''
                [(''error'', JStr msg), (''user_id'', JStr user_id)] (tick dt r1))
         | Succeeds dt \<Rightarrow>
             let r2 = tick dt r1;
                 output_path = OUTPUT_DIR C @ ''/'' @ task_id @ ''.png'';
                 generation_time = fsub (now_float r2) start_time;
                 result_data =
                   [(''image_url'', JStr (''/task/'' @ task_id @ ''/result'')),
                    (''generation_time'', JFloat generation_time)];
                 r3 = cache_result cache_key result_data r2;
                 r4 = update_task_status task_id ''completed''
                        [(''output_path'', JStr output_path),
                         (''generation_time'', JFloat generation_time),
                         (''user_id'', JStr user_id)] r3
             in (Inr result_data, r4))"

definition generate_video_task ::
  "config \<Rightarrow> generation \<Rightarrow> string \<Rightarrow> string \<Rightarrow> pynum \<Rightarrow> int \<Rightarrow> int \<Rightarrow> int \<Rightarrow> int option
     \<Rightarrow> string option \<Rightarrow> string \<Rightarrow> redis \<Rightarrow> (string + pydict) \<times> redis"
where
  "generate_video_task C gen task_id prompt duration width height fps seed lora_path user_id r =
     (let r1 = update_task_status task_id ''processing'' [(''user_id'', JStr user_id)] r;
          start_time = now_float r1
      in case gen of
           Fails dt msg \<Rightarrow>
             (Inl msg,
              update_task_status task_id ''failed''
                [(''error'', JStr msg), (''user_id'', JStr user_id)] (tick dt r1))
         | Succeeds dt \<Rightarrow>
             let r2 = tick dt r1;
                 video_path = OUTPUT_DIR C @ ''/'' @ task_id @ ''.mp4'';
                 generation_time = fsub (now_float r2) start_time;
                 r3 = update_task_status task_id ''completed''
                        [(''output_path'', JStr video_path),
                         (''generation_time'', JFloat generation_time),
                         (''user_id'', JStr user_id)] r2
             in (Inr [(''video_url'', JStr (''/task/'' @ task_id @ ''/result'')),
                      (''generation_time'', JFloat generation_time)],
                 r3))"

text \<open>A worker takes a job off the queue and runs its task.\<close>

fun run_job :: "config \<Rightarrow> generation \<Rightarrow> job \<Rightarrow> redis \<Rightarrow> (string + pydict) \<times> redis" where
  "run_job C gen (ImageJob task_id prompt width height steps guidance seed lora_path cache_key
      user_id) r =
     generate_image_task C gen task_id prompt width height steps guidance seed lora_path
       cache_key user_id r"
| "run_job C gen (VideoJob task_id prompt duration width height fps seed lora_path user_id) r =
     generate_video_task C gen task_id prompt duration width height fps seed lora_path
       user_id r"

section \<open>The running system\<close>

text \<open>
  The web process and the workers share the store and the Celery queue. A run is a list
  of events: a submission (with the caller's identity, the body, the uuid drawn and the
  Celery id), a worker executing the job at some position of the queue (with what the
  generation does), a status or result query, time passing, and the store becoming
  unreliable in a given pattern. A job is executed once and as a whole.
\<close>

record system =
  store :: redis
  queue :: "job list"

datatype event =
  SubmitImage string request string string
| SubmitVideo string request string string
| Work nat generation
| GetStatus string string
| GetResult string string
| Tick nat
| Faults "bool list"

fun delay :: "job option \<Rightarrow> job list \<Rightarrow> job list" where
  "delay None q = q"
| "delay (Some j) q = q @ [j]"

fun exec :: "config \<Rightarrow> extern \<Rightarrow> event \<Rightarrow> system \<Rightarrow> system" where
  "exec C X (SubmitImage user_id data task_id celery_id) s =
     (case generate_image C X user_id data task_id celery_id (store s) of
        (resp, j, r') \<Rightarrow> \<lparr>store = r', queue = delay j (queue s)\<rparr>)"
| "exec C X (SubmitVideo user_id data task_id celery_id) s =
     (case generate_video C X user_id data task_id celery_id (store s) of
        (resp, j, r') \<Rightarrow> \<lparr>store = r', queue = delay j (queue s)\<rparr>)"
| "exec C X (Work i gen) s =
     (if i < length (queue s)
      then \<lparr>store = snd (run_job C gen (queue s ! i) (store s)),
            queue = take i (queue s) @ drop (Suc i) (queue s)\<rparr>
      else s)"
| "exec C X (GetStatus task_id user_id) s =
     s\<lparr>store := snd (get_task_status task_id user_id (store s))\<rparr>"
| "exec C X (GetResult task_id user_id) s =
     s\<lparr>store := snd (get_task_result X task_id user_id (store s))\<rparr>"
| "exec C X (Tick d) s = s\<lparr>store := tick d (store s)\<rparr>"
| "exec C X (Faults fs) s = s\<lparr>store := (store s)\<lparr>faults := fs\<rparr>\<rparr>"

fun run :: "config \<Rightarrow> extern \<Rightarrow> event list \<Rightarrow> system \<Rightarrow> system" where
  "run C X [] s = s"
| "run C X (ev # evs) s = run C X evs (exec C X ev s)"

text \<open>The uuids drawn in a run; \<open>uuid.uuid4()\<close> does not repeat.\<close>

fun drawn :: "event \<Rightarrow> string list" where
  "drawn (SubmitImage user_id data task_id celery_id) = [task_id]"
| "drawn (SubmitVideo user_id data task_id celery_id) = [task_id]"
| "drawn ev = []"

definition redis_empty :: redis where
  "redis_empty = \<lparr>kv = (\<lambda>k. None), clock = 0, faults = [], trace = []\<rparr>"

definition boot :: system where
  "boot = \<lparr>store = redis_empty, queue = []\<rparr>"

text \<open>
  An outside world for the worked examples: no LoRA can be fetched and no file exists.
  Its digests and renderings are placeholders; no example depends on what they return.
\<close>

definition idle_extern :: extern where
  "idle_extern =
     \<lparr>md5_hexdigest = (\<lambda>s. s), sha256_hexdigest = (\<lambda>s. s),
      json_dumps = (\<lambda>d. concat (map fst d)), repr_dict = (\<lambda>d. concat (map fst d)),
      process_lora = (\<lambda>l t. None), path_exists = (\<lambda>p. False),
      fd_exists = (\<lambda>n. Some False)\<rparr>"

section \<open>Observations used in the statements\<close>

text \<open>The number of exceptions that store operations have raised so far.\<close>

definition raised :: "redis \<Rightarrow> nat" where
  "raised r = length (filter (\<lambda>ev. ev = Raised) (trace r))"

text \<open>The rate-limit counter of a user and operation class: 0 outside a window.\<close>

definition counter :: "redis \<Rightarrow> string \<Rightarrow> string \<Rightarrow> int" where
  "counter r user_id endpoint_type =
     (case lookup r (rate_key user_id endpoint_type) of
        Some (RInt n, ex) \<Rightarrow> n
      | _ \<Rightarrow> 0)"

text \<open>The task record that \<open>get_task_info\<close> would read, faults apart.\<close>

definition task_record :: "redis \<Rightarrow> string \<Rightarrow> redis_value option" where
  "task_record r task_id = map_option fst (lookup r (task_key task_id))"

text \<open>The states written to the record of a task, in the order of the writes.\<close>

fun written_state :: "string \<Rightarrow> redis_event \<Rightarrow> json option" where
  "written_state task_id (Wrote k (RJson d)) =
     (if k = task_key task_id then map_of d ''status'' else None)"
| "written_state task_id (Wrote k (RInt n)) = None"
| "written_state task_id Raised = None"

definition recorded_states :: "string \<Rightarrow> redis \<Rightarrow> json list" where
  "recorded_states task_id r = List.map_filter (written_state task_id) (trace r)"

text \<open>The lifecycle as the specification words it.\<close>

definition lifecycle_spec :: "json list \<Rightarrow> bool" where
  "lifecycle_spec xs =
     (prefix xs [JStr ''queued'', JStr ''processing'', JStr ''completed''] \<or>
      prefix xs [JStr ''queued'', JStr ''processing'', JStr ''failed''])"

text \<open>The lifecycle that the workers follow; a write lost to a store fault leaves a gap.\<close>

definition lifecycle_code :: "json list \<Rightarrow> bool" where
  "lifecycle_code xs =
     (subseq xs [JStr ''processing'', JStr ''completed''] \<or>
      subseq xs [JStr ''processing'', JStr ''failed''])"

text \<open>
  A series of calls of \<open>check_rate_limit\<close> by one user for one operation class, each
  after a delay in seconds.
\<close>

fun requests :: "string \<Rightarrow> string \<Rightarrow> nat list \<Rightarrow> redis \<Rightarrow> bool list \<times> redis" where
  "requests user_id endpoint_type [] r = ([], r)"
| "requests user_id endpoint_type (d # ds) r =
     (case check_rate_limit user_id endpoint_type (tick d r) of
        (ok, r1) \<Rightarrow>
          (case requests user_id endpoint_type ds r1 of (oks, r2) \<Rightarrow> (ok # oks, r2)))"

text \<open>
  What \<open>generate_image\<close> computes from a body with a prompt: the cache key it looks
  up, the keyword arguments it gives to \<open>delay\<close>, and its estimate.
\<close>

definition image_cache_key :: "config \<Rightarrow> extern \<Rightarrow> request \<Rightarrow> string \<Rightarrow> string" where
  "image_cache_key C X data prompt =
     generate_cache_key X prompt
       (min (case data_width data of None \<Rightarrow> 512 | Some w \<Rightarrow> w) (MAX_IMAGE_SIZE C))
       (min (case data_height data of None \<Rightarrow> 512 | Some h \<Rightarrow> h) (MAX_IMAGE_SIZE C))
       (case data_num_inference_steps data of None \<Rightarrow> 50 | Some n \<Rightarrow> n)
       (case data_guidance_scale data of None \<Rightarrow> PyFloat 15 (- 1) | Some g \<Rightarrow> g)
       (data_seed data) (data_lora data)"

definition image_job ::
  "config \<Rightarrow> extern \<Rightarrow> string \<Rightarrow> request \<Rightarrow> string \<Rightarrow> string \<Rightarrow> job"
where
  "image_job C X user_id data task_id prompt =
     ImageJob task_id prompt
       (min (case data_width data of None \<Rightarrow> 512 | Some w \<Rightarrow> w) (MAX_IMAGE_SIZE C))
       (min (case data_height data of None \<Rightarrow> 512 | Some h \<Rightarrow> h) (MAX_IMAGE_SIZE C))
       (case data_num_inference_steps data of None \<Rightarrow> 50 | Some n \<Rightarrow> n)
       (case data_guidance_scale data of None \<Rightarrow> PyFloat 15 (- 1) | Some g \<Rightarrow> g)
       (data_seed data)
       (case data_lora data of
          None \<Rightarrow> None
        | Some l \<Rightarrow> if lora_truthy (data_lora data) then process_lora X l task_id else None)
       (image_cache_key C X data prompt) user_id"

definition image_estimate :: "config \<Rightarrow> request \<Rightarrow> exn + int" where
  "image_estimate C data =
     estimate_generation_time
       (min (case data_width data of None \<Rightarrow> 512 | Some w \<Rightarrow> w) (MAX_IMAGE_SIZE C))
       (min (case data_height data of None \<Rightarrow> 512 | Some h \<Rightarrow> h) (MAX_IMAGE_SIZE C))
       (case data_num_inference_steps data of None \<Rightarrow> 50 | Some n \<Rightarrow> n)"

text \<open>The same for \<open>generate_video\<close> and a body with a prompt and a duration.\<close>

definition video_job ::
  "config \<Rightarrow> extern \<Rightarrow> string \<Rightarrow> request \<Rightarrow> string \<Rightarrow> string \<Rightarrow> pyfloat \<Rightarrow> job"
where
  "video_job C X user_id data task_id prompt d =
     VideoJob task_id prompt (min_duration d (MAX_VIDEO_DURATION C))
       (min (case data_width data of None \<Rightarrow> 512 | Some w \<Rightarrow> w) (MAX_IMAGE_SIZE C))
       (min (case data_height data of None \<Rightarrow> 512 | Some h \<Rightarrow> h) (MAX_IMAGE_SIZE C))
       (case data_fps data of None \<Rightarrow> 24 | Some f \<Rightarrow> f)
       (data_seed data)
       (case data_lora data of
          None \<Rightarrow> None
        | Some l \<Rightarrow> if lora_truthy (data_lora data) then process_lora X l task_id else None)
       user_id"

definition video_estimate :: "config \<Rightarrow> request \<Rightarrow> pyfloat \<Rightarrow> exn + int" where
  "video_estimate C data d =
     estimate_video_generation_time (min_duration d (MAX_VIDEO_DURATION C))
       (min (case data_width data of None \<Rightarrow> 512 | Some w \<Rightarrow> w) (MAX_IMAGE_SIZE C))
       (min (case data_height data of None \<Rightarrow> 512 | Some h \<Rightarrow> h) (MAX_IMAGE_SIZE C))
       (case data_fps data of None \<Rightarrow> 24 | Some f \<Rightarrow> f)"

text \<open>The body that both endpoints answer once the job is handed over.\<close>

definition processing_response :: "string \<Rightarrow> int \<Rightarrow> string \<Rightarrow> response" where
  "processing_response task_id estimated_time celery_id =
     Json 200
       [(''task_id'', JStr task_id),
        (''status'', JStr ''processing''),
        (''estimated_time'', JInt estimated_time),
        (''celery_task_id'', JStr celery_id)]"

text \<open>
  The validation of \<open>generate_image\<close>, in the order of its tests: the message of the
  400 answer, \<open>None\<close> for a body that passes.
\<close>

definition image_validation_error :: "request \<Rightarrow> string option" where
  "image_validation_error data =
     (case data_prompt data of
        None \<Rightarrow> Some ''Prompt e obrigatorio''
      | Some prompt \<Rightarrow>
          let num_inference_steps =
                (case data_num_inference_steps data of None \<Rightarrow> 50 | Some n \<Rightarrow> n)
          in
          if 1000 < length prompt then Some ''Prompt muito longo (maximo 1000 caracteres)''
          else if num_inference_steps < 1 \<or> 100 < num_inference_steps then
            Some ''num_inference_steps deve estar entre 1 e 100''
          else None)"

text \<open>The validation of \<open>generate_video\<close>, likewise.\<close>

definition video_validation_error :: "config \<Rightarrow> request \<Rightarrow> string option" where
  "video_validation_error C data =
     (case (data_prompt data, data_duration data) of
        (Some prompt, Some d) \<Rightarrow>
          let duration = min_duration d (MAX_VIDEO_DURATION C);
              fps = (case data_fps data of None \<Rightarrow> 24 | Some f \<Rightarrow> f)
          in
          if num_le_int duration 0 \<or> num_gt_int duration (MAX_VIDEO_DURATION C) then
            Some (''Duration deve estar entre 0 e '' @ show_int (MAX_VIDEO_DURATION C)
                    @ '' segundos'')
          else if fps < 1 \<or> 60 < fps then Some ''FPS deve estar entre 1 e 60''
          else None
      | _ \<Rightarrow> Some ''Prompt e duration sao obrigatorios'')"

text \<open>
  The counter of a user and operation class leaves room for one more request: there is
  none in the current window, or it is an integer below the user's ceiling.
\<close>

definition has_room :: "redis \<Rightarrow> string \<Rightarrow> string \<Rightarrow> bool" where
  "has_room r user_id endpoint_type =
     (case lookup r (rate_key user_id endpoint_type) of
        None \<Rightarrow> True
      | Some (RInt n, ex) \<Rightarrow> n < rate_limit_of user_id
      | Some (RJson d, ex) \<Rightarrow> False)"

text \<open>The request whose body is \<open>{}\<close>.\<close>

definition no_body :: request where
  "no_body =
     \<lparr>data_prompt = None, data_duration = None, data_lora = None, data_width = None,
      data_height = None, data_num_inference_steps = None, data_guidance_scale = None,
      data_fps = None, data_seed = None\<rparr>"

section \<open>The scenario of the specification\<close>

text \<open>
  The request \<open>prompt="a red cube", width=512, height=512, steps=50, guidance=7.5,
  seed=42\<close>, no adapter; its cache key; and a store that holds a cached result for it.
\<close>

definition red_cube :: request where
  "red_cube =
     \<lparr>data_prompt = Some ''a red cube'', data_duration = None, data_lora = None,
      data_width = Some 512, data_height = Some 512, data_num_inference_steps = Some 50,
      data_guidance_scale = Some (PyFloat 15 (- 1)), data_fps = None, data_seed = Some 42\<rparr>"

definition red_cube_key :: string where
  "red_cube_key =
     generate_cache_key idle_extern ''a red cube'' 512 512 50 (PyFloat 15 (- 1)) (Some 42) None"

definition warm_store :: redis where
  "warm_store =
     cache_result red_cube_key
       [(''image_url'', JStr ''/task/t0/result''), (''generation_time'', JFloat (PyFloat 7 0))]
       redis_empty"

text \<open>The state that a worker records when the generation is over.\<close>

fun terminal :: "generation \<Rightarrow> string" where
  "terminal (Succeeds dt) = ''completed''"
| "terminal (Fails dt msg) = ''failed''"

section \<open>Computing with the floats\<close>

lemma bitlen_0: "bitlen 0 = 0"
  by (simp add: bitlen.simps)

lemma bitlen_1: "bitlen 1 = 1" "bitlen (Suc 0) = 1"
  by (simp_all add: bitlen.simps)

lemma bitlen_Bit0: "bitlen (numeral (Num.Bit0 n)) = Suc (bitlen (numeral n))"
  by (subst bitlen.simps) simp

lemma bitlen_Bit1: "bitlen (numeral (Num.Bit1 n)) = Suc (bitlen (numeral n))"
  by (subst bitlen.simps) simp

lemma fnorm_0: "fnorm 0 e = PyFloat 0 0"
  by (simp add: fnorm.simps)

lemma fnorm_1: "fnorm 1 e = PyFloat 1 e" "fnorm (- 1) e = PyFloat (- 1) e"
  by (simp_all add: fnorm.simps)

lemma fnorm_Bit0:
  "fnorm (numeral (Num.Bit0 n)) e = fnorm (numeral n) (e + 1)"
  "fnorm (- numeral (Num.Bit0 n)) e = fnorm (- numeral n) (e + 1)"
  by (subst fnorm.simps, simp)+

lemma fnorm_Bit1:
  "fnorm (numeral (Num.Bit1 n)) e = PyFloat (numeral (Num.Bit1 n)) e"
  "fnorm (- numeral (Num.Bit1 n)) e = PyFloat (- numeral (Num.Bit1 n)) e"
  by (subst fnorm.simps, simp)+

text \<open>Rounding is unfolded on literals only, so that its argument is computed first.\<close>

lemmas round64_eval = round64_def [of _ 0] round64_def [of _ 1] round64_def [of _ "Suc 0"]
  round64_def [of _ "numeral n"] for n

lemmas float_eval = bitlen_0 bitlen_1 bitlen_Bit0 bitlen_Bit1 fnorm_0 fnorm_1 fnorm_Bit0
  fnorm_Bit1 round64_eval true_div_def float_of_int_def fmul_def Let_def

lemma estimate_512_512_50: "estimate_generation_time 512 512 50 = Inr 10"
  by (simp add: estimate_generation_time_def float_eval)

section \<open>Store operations: what a call changes\<close>

lemma redis_call_False:
  "redis_call r = (False, r') \<Longrightarrow>
     kv r' = kv r \<and> clock r' = clock r \<and> trace r' = trace r \<and> faults r' = tl (faults r)"
  by (cases "faults r") (auto simp: redis_call_def)

lemma redis_call_True:
  "redis_call r = (True, r') \<Longrightarrow>
     kv r' = kv r \<and> clock r' = clock r \<and> trace r' = trace r @ [Raised] \<and> faults r' = tl (faults r)"
  by (cases "faults r") (auto simp: redis_call_def)

lemma redis_get_Inr:
  assumes "redis_get k r = (Inr v, r')"
  shows "v = map_option fst (lookup r k) \<and> kv r' = kv r \<and> clock r' = clock r \<and>
         trace r' = trace r \<and> faults r' = tl (faults r)"
proof -
  obtain b r1 where c: "redis_call r = (b, r1)" by (cases "redis_call r")
  show ?thesis
  proof (cases b)
    case True
    with assms c show ?thesis by (simp add: redis_get_def)
  next
    case False
    with c have c': "redis_call r = (False, r1)" by simp
    from redis_call_False [OF c'] assms c' show ?thesis
      by (auto simp: redis_get_def lookup_def split: option.splits)
  qed
qed

lemma redis_get_Inl:
  assumes "redis_get k r = (Inl e, r')"
  shows "kv r' = kv r \<and> clock r' = clock r \<and> trace r' = trace r @ [Raised] \<and>
         faults r' = tl (faults r)"
proof -
  obtain b r1 where c: "redis_call r = (b, r1)" by (cases "redis_call r")
  show ?thesis
  proof (cases b)
    case True
    with c have c': "redis_call r = (True, r1)" by simp
    from redis_call_True [OF c'] assms c' show ?thesis
      by (auto simp: redis_get_def)
  next
    case False
    with assms c show ?thesis by (simp add: redis_get_def)
  qed
qed

lemma get_task_info_cases:
  assumes "get_task_info tid r = (x, r')"
  shows "x = None \<or> x = task_record r tid"
proof -
  obtain y r1 where g: "redis_get (task_key tid) r = (y, r1)"
    by (cases "redis_get (task_key tid) r")
  show ?thesis
  proof (cases y)
    case (Inl e)
    with g assms show ?thesis by (simp add: get_task_info_def)
  next
    case (Inr v)
    with g have v: "v = map_option fst (lookup r (task_key tid))"
      using redis_get_Inr by blast
    show ?thesis
    proof (cases v)
      case None
      with g Inr assms show ?thesis by (simp add: get_task_info_def)
    next
      case (Some w)
      with g Inr assms have "x = Some w" by (simp add: get_task_info_def)
      moreover from Some v have "task_record r tid = Some w"
        unfolding task_record_def by simp
      ultimately show ?thesis by simp
    qed
  qed
qed

text \<open>
  Claim C7. A caller who does not own a stored task gets, from \<open>get_task_status\<close> and
  from \<open>get_task_result\<close>, the very answer given for a task id with no record: status
  404 with the body \<open>{'error': 'Tarefa nao encontrada'}\<close>. This holds whether or not the
  store raises during the call.
\<close>

theorem task_owner_isolation:
  assumes "task_record r task_id = Some (RJson t)"
    and "map_of t ''user_id'' = Some (JStr owner)"
    and "owner \<noteq> user_id"
    and "task_record s task_id = None"
  shows "fst (get_task_status task_id user_id r) = task_not_found \<and>
         fst (get_task_status task_id user_id s) = task_not_found \<and>
         fst (get_task_result X task_id user_id r) = task_not_found \<and>
         fst (get_task_result X task_id user_id s) = task_not_found"
proof -
  obtain x s' where gs: "get_task_info task_id s = (x, s')"
    by (cases "get_task_info task_id s")
  from get_task_info_cases [OF gs] assms(4) have x: "x = None" by simp
  obtain y r' where gr: "get_task_info task_id r = (y, r')"
    by (cases "get_task_info task_id r")
  from get_task_info_cases [OF gr] assms(1) have y: "y = None \<or> y = Some (RJson t)"
    by simp
  have a: "fst (get_task_status task_id user_id s) = task_not_found"
    using gs x by (simp add: get_task_status_def)
  have b: "fst (get_task_result X task_id user_id s) = task_not_found"
    using gs x by (simp add: get_task_result_def)
  have c: "fst (get_task_status task_id user_id r) = task_not_found"
    using y
  proof
    assume "y = None"
    with gr show ?thesis by (simp add: get_task_status_def)
  next
    assume "y = Some (RJson t)"
    with gr assms(2,3) show ?thesis by (simp add: get_task_status_def)
  qed
  have d: "fst (get_task_result X task_id user_id r) = task_not_found"
    using y
  proof
    assume "y = None"
    with gr show ?thesis by (simp add: get_task_result_def)
  next
    assume "y = Some (RJson t)"
    with gr assms(2,3) show ?thesis by (simp add: get_task_result_def)
  qed
  show ?thesis using a b c d by simp
qed

theorem task_owner_isolation_witness:
  "fst (get_task_status ''t1'' ''premium_user''
          (update_task_status ''t1'' ''processing'' [(''user_id'', JStr ''demo_user'')] redis_empty))
     = task_not_found \<and>
   fst (get_task_status ''t1'' ''premium_user'' redis_empty) = task_not_found \<and>
   fst (get_task_result idle_extern ''t1'' ''premium_user''
          (update_task_status ''t1'' ''processing'' [(''user_id'', JStr ''demo_user'')] redis_empty))
     = task_not_found \<and>
   fst (get_task_result idle_extern ''t1'' ''premium_user'' redis_empty) = task_not_found"
proof -
  have 1: "task_record
             (update_task_status ''t1'' ''processing'' [(''user_id'', JStr ''demo_user'')] redis_empty)
             ''t1'' =
           Some (RJson [(''task_id'', JStr ''t1''), (''status'', JStr ''processing''),
                        (''updated_at'', JFloat (now_float redis_empty)),
                        (''user_id'', JStr ''demo_user'')])"
    by (simp add: update_task_status_def redis_setex_def redis_call_def redis_empty_def
        task_record_def lookup_def live_def task_ttl_def Let_def)
  have 2: "map_of [(''task_id'', JStr ''t1''), (''status'', JStr ''processing''),
                   (''updated_at'', JFloat (now_float redis_empty)),
                   (''user_id'', JStr ''demo_user'')] ''user_id'' = Some (JStr ''demo_user'')"
    by simp
  have 3: "''demo_user'' \<noteq> ''premium_user''" by simp
  have 4: "task_record redis_empty ''t1'' = None"
    by (simp add: task_record_def lookup_def redis_empty_def)
  show ?thesis using task_owner_isolation [OF 1 2 3 4] by simp
qed

lemma redis_setex_effect:
  assumes "redis_setex k ttl v r = (x, r')"
  shows "clock r' = clock r \<and> faults r' = tl (faults r) \<and>
         (x = Inl RedisError \<and> kv r' = kv r \<and> trace r' = trace r @ [Raised] \<or>
          x = Inr () \<and> kv r' = (kv r)(k \<mapsto> (v, Some (clock r + ttl))) \<and>
            trace r' = trace r @ [Wrote k v])"
proof -
  obtain b r1 where c: "redis_call r = (b, r1)" by (cases "redis_call r")
  show ?thesis
  proof (cases b)
    case True
    with c have c': "redis_call r = (True, r1)" by simp
    from redis_call_True [OF c'] assms c' show ?thesis
      by (auto simp: redis_setex_def)
  next
    case False
    with c have c': "redis_call r = (False, r1)" by simp
    from redis_call_False [OF c'] assms c' show ?thesis
      by (auto simp: redis_setex_def)
  qed
qed

lemma redis_incr_effect:
  assumes "redis_incr k r = (x, r')"
  shows "clock r' = clock r \<and> faults r' = tl (faults r) \<and>
         (x = Inl RedisError \<and> kv r' = kv r \<and> trace r' = trace r @ [Raised] \<or>
          (\<exists>d ex. lookup r k = Some (RJson d, ex)) \<and> x = Inl ResponseError \<and> kv r' = kv r \<and>
             trace r' = trace r @ [Raised] \<or>
          lookup r k = None \<and> x = Inr 1 \<and> kv r' = (kv r)(k \<mapsto> (RInt 1, None)) \<and>
             trace r' = trace r @ [Wrote k (RInt 1)] \<or>
          (\<exists>n ex. lookup r k = Some (RInt n, ex) \<and> x = Inr (n + 1) \<and>
             kv r' = (kv r)(k \<mapsto> (RInt (n + 1), ex)) \<and>
             trace r' = trace r @ [Wrote k (RInt (n + 1))]))"
proof -
  obtain b r1 where c: "redis_call r = (b, r1)" by (cases "redis_call r")
  show ?thesis
  proof (cases b)
    case True
    with c have c': "redis_call r = (True, r1)" by simp
    from redis_call_True [OF c'] assms c' show ?thesis
      by (auto simp: redis_incr_def)
  next
    case False
    with c have c': "redis_call r = (False, r1)" by simp
    from redis_call_False [OF c'] have l: "lookup r1 k = lookup r k"
      by (simp add: lookup_def split: option.splits)
    from redis_call_False [OF c'] assms c' l show ?thesis
      by (auto simp: redis_incr_def split: option.splits redis_value.splits)
  qed
qed

lemma check_rate_limit_denied:
  assumes "check_rate_limit user_id endpoint_type r = (False, r')"
  shows "kv r' = kv r \<and> clock r' = clock r \<and> trace r' = trace r \<and>
         faults r' = tl (faults r) \<and>
         (\<exists>c ex. lookup r (rate_key user_id endpoint_type) = Some (RInt c, ex) \<and>
            rate_limit_of user_id \<le> c)"
proof -
  let ?k = "rate_key user_id endpoint_type"
  obtain x r1 where g: "redis_get ?k r = (x, r1)" by (cases "redis_get ?k r")
  show ?thesis
  proof (cases x)
    case (Inl e)
    with g assms show ?thesis by (simp add: check_rate_limit_def)
  next
    case (Inr v)
    with g have gi: "redis_get ?k r = (Inr v, r1)" by simp
    note e = redis_get_Inr [OF gi]
    show ?thesis
    proof (cases v)
      case None
      with gi assms show ?thesis by (simp add: check_rate_limit_def)
    next
      case (Some w)
      show ?thesis
      proof (cases w)
        case (RJson d)
        with Some gi assms show ?thesis by (simp add: check_rate_limit_def)
      next
        case (RInt c)
        with Some gi assms have "rate_limit_of user_id \<le> c \<and> r' = r1"
          by (simp add: check_rate_limit_def split: if_splits)
        moreover from e Some RInt have "\<exists>ex. lookup r ?k = Some (RInt c, ex)"
          by (cases "lookup r ?k") auto
        ultimately show ?thesis using e by auto
      qed
    qed
  qed
qed

lemma get_cached_result_found:
  assumes "get_cached_result cache_key r = (Some v, r')"
  shows "kv r' = kv r \<and> clock r' = clock r \<and> trace r' = trace r \<and>
         faults r' = tl (faults r) \<and> map_option fst (lookup r cache_key) = Some v"
proof -
  obtain x r1 where g: "redis_get cache_key r = (x, r1)" by (cases "redis_get cache_key r")
  show ?thesis
  proof (cases x)
    case (Inl e)
    with g assms show ?thesis by (simp add: get_cached_result_def)
  next
    case (Inr w)
    with g have gi: "redis_get cache_key r = (Inr w, r1)" by simp
    note e = redis_get_Inr [OF gi]
    from gi assms have "w = Some v \<and> r' = r1"
      by (cases w) (simp_all add: get_cached_result_def)
    with e show ?thesis by auto
  qed
qed

lemma generate_image_outage:
  assumes "faults r = True # True # fs"
    and "data_prompt data = Some prompt"
    and "image_validation_error data = None"
  shows "generate_image C X user_id data task_id celery_id r =
           generate_image_miss X user_id task_id celery_id prompt
             (min (case data_width data of None \<Rightarrow> 512 | Some w \<Rightarrow> w) (MAX_IMAGE_SIZE C))
             (min (case data_height data of None \<Rightarrow> 512 | Some h \<Rightarrow> h) (MAX_IMAGE_SIZE C))
             (case data_num_inference_steps data of None \<Rightarrow> 50 | Some n \<Rightarrow> n)
             (case data_guidance_scale data of None \<Rightarrow> PyFloat 15 (- 1) | Some g \<Rightarrow> g)
             (data_seed data) (data_lora data) (image_cache_key C X data prompt)
             (r\<lparr>faults := fs, trace := trace r @ [Raised, Raised]\<rparr>)"
proof -
  let ?r1 = "r\<lparr>faults := True # fs, trace := trace r @ [Raised]\<rparr>"
  have 1: "check_rate_limit user_id ''image'' r = (True, ?r1)"
    using assms(1) by (simp add: check_rate_limit_def redis_get_def redis_call_def)
  have 2: "get_cached_result k ?r1 =
             (None, r\<lparr>faults := fs, trace := trace r @ [Raised, Raised]\<rparr>)" for k
    by (simp add: get_cached_result_def redis_get_def redis_call_def)
  from assms(2,3) have v: "\<not> 1000 < length prompt"
    "\<not> ((case data_num_inference_steps data of None \<Rightarrow> 50 | Some n \<Rightarrow> n) < 1 \<or>
        100 < (case data_num_inference_steps data of None \<Rightarrow> 50 | Some n \<Rightarrow> n))"
    by (auto simp: image_validation_error_def Let_def split: if_splits)
  show ?thesis
    using assms(2) v
    by (simp add: generate_image_def generate_image_lookup_def 1 2 image_cache_key_def Let_def)
qed

text \<open>
  Claim C5, amended. An exception raised by a store operation never leaves
  \<open>check_rate_limit\<close> or \<open>get_cached_result\<close>: whenever an operation raises during
  \<open>check_rate_limit\<close> the request is admitted, and whenever one raises during
  \<open>get_cached_result\<close> the answer is a miss, so a valid image request goes on to the
  hand-off. The hand-off is not protected: when the limiter and the cache have both met a
  raising store and publishing the job raises as well, the request is answered 500 and no job
  is handed over; when publishing goes through (and the estimate can be computed), the
  request is answered \<open>processing\<close> and the job built from the request is handed over.
\<close>

theorem store_failures_absorbed:
  "(raised r < raised (snd (check_rate_limit user_id endpoint_type r))
      \<longrightarrow> fst (check_rate_limit user_id endpoint_type r)) \<and>
   (raised r < raised (snd (get_cached_result cache_key r))
      \<longrightarrow> fst (get_cached_result cache_key r) = None) \<and>
   (faults s = True # True # True # fs \<and> data_prompt data = Some prompt \<and>
    image_validation_error data = None
      \<longrightarrow> generate_image C X uid data task_id celery_id s =
            (internal_error, None,
             s\<lparr>faults := fs, trace := trace s @ [Raised, Raised, Raised]\<rparr>)) \<and>
   (faults t = True # True # False # fs \<and> data_prompt data = Some prompt \<and>
    image_validation_error data = None \<and> image_estimate C data = Inr est
      \<longrightarrow> generate_image C X uid data task_id celery_id t =
            (processing_response task_id est celery_id,
             Some (image_job C X uid data task_id prompt),
             t\<lparr>faults := fs, trace := trace t @ [Raised, Raised]\<rparr>))"
proof (intro conjI impI)
  assume a: "raised r < raised (snd (check_rate_limit user_id endpoint_type r))"
  show "fst (check_rate_limit user_id endpoint_type r)"
  proof (rule ccontr)
    assume "\<not> fst (check_rate_limit user_id endpoint_type r)"
    then have "check_rate_limit user_id endpoint_type r =
                 (False, snd (check_rate_limit user_id endpoint_type r))"
      by (cases "check_rate_limit user_id endpoint_type r") simp
    from check_rate_limit_denied [OF this] a show False by (simp add: raised_def)
  qed
next
  assume a: "raised r < raised (snd (get_cached_result cache_key r))"
  show "fst (get_cached_result cache_key r) = None"
  proof (cases "fst (get_cached_result cache_key r)")
    case None
    then show ?thesis .
  next
    case (Some v)
    then have "get_cached_result cache_key r = (Some v, snd (get_cached_result cache_key r))"
      by (cases "get_cached_result cache_key r") simp
    from get_cached_result_found [OF this] a show ?thesis by (simp add: raised_def)
  qed
next
  assume a: "faults s = True # True # True # fs \<and> data_prompt data = Some prompt \<and>
             image_validation_error data = None"
  then have "faults s = True # True # True # fs" "data_prompt data = Some prompt"
    "image_validation_error data = None"
    by simp_all
  from generate_image_outage [OF this]
  show "generate_image C X uid data task_id celery_id s =
          (internal_error, None,
           s\<lparr>faults := fs, trace := trace s @ [Raised, Raised, Raised]\<rparr>)"
    by (simp add: generate_image_miss_def publish_def redis_call_def Let_def)
next
  assume a: "faults t = True # True # False # fs \<and> data_prompt data = Some prompt \<and>
             image_validation_error data = None \<and> image_estimate C data = Inr est"
  then have "faults t = True # True # False # fs" "data_prompt data = Some prompt"
    "image_validation_error data = None"
    by simp_all
  from generate_image_outage [OF this] a
  show "generate_image C X uid data task_id celery_id t =
          (processing_response task_id est celery_id,
           Some (image_job C X uid data task_id prompt),
           t\<lparr>faults := fs, trace := trace t @ [Raised, Raised]\<rparr>)"
    by (simp add: generate_image_miss_def publish_def redis_call_def Let_def
        image_estimate_def image_job_def processing_response_def)
qed

text \<open>
  The request of the specification's scenario against a store that raises three times and
  against one that raises twice: the first is answered 500 with nothing handed over, the
  second \<open>processing\<close> with an estimate of 10 seconds.
\<close>

theorem store_failures_absorbed_witness:
  "fst (check_rate_limit ''demo_user'' ''image'' (redis_empty\<lparr>faults := [True, True, True]\<rparr>)) \<and>
   fst (get_cached_result red_cube_key (redis_empty\<lparr>faults := [True, True, True]\<rparr>)) = None \<and>
   generate_image default_CONFIG idle_extern ''demo_user'' red_cube ''t1'' ''c1''
     (redis_empty\<lparr>faults := [True, True, True]\<rparr>) =
     (internal_error, None, redis_empty\<lparr>trace := [Raised, Raised, Raised]\<rparr>) \<and>
   generate_image default_CONFIG idle_extern ''demo_user'' red_cube ''t1'' ''c1''
     (redis_empty\<lparr>faults := [True, True, False]\<rparr>) =
     (processing_response ''t1'' 10 ''c1'',
      Some (image_job default_CONFIG idle_extern ''demo_user'' red_cube ''t1'' ''a red cube''),
      redis_empty\<lparr>trace := [Raised, Raised]\<rparr>)"
proof -
  let ?s = "redis_empty\<lparr>faults := [True, True, True]\<rparr>"
  let ?t = "redis_empty\<lparr>faults := [True, True, False]\<rparr>"
  have 1: "raised ?s < raised (snd (check_rate_limit ''demo_user'' ''image'' ?s))"
    by (simp add: check_rate_limit_def redis_get_def redis_call_def raised_def redis_empty_def)
  have 2: "raised ?s < raised (snd (get_cached_result red_cube_key ?s))"
    by (simp add: get_cached_result_def redis_get_def redis_call_def raised_def
        redis_empty_def)
  have 3: "faults ?s = True # True # True # []" "faults ?t = True # True # False # []"
    by simp_all
  have 4: "data_prompt red_cube = Some ''a red cube''"
    by (simp add: red_cube_def)
  have 5: "image_validation_error red_cube = None"
    by (simp add: image_validation_error_def red_cube_def)
  have 6: "image_estimate default_CONFIG red_cube = Inr 10"
    by (simp add: image_estimate_def red_cube_def default_CONFIG_def estimate_512_512_50)
  have 7: "?s\<lparr>faults := [], trace := trace ?s @ [Raised, Raised, Raised]\<rparr> =
             redis_empty\<lparr>trace := [Raised, Raised, Raised]\<rparr>"
    "?t\<lparr>faults := [], trace := trace ?t @ [Raised, Raised]\<rparr> =
       redis_empty\<lparr>trace := [Raised, Raised]\<rparr>"
    by (simp_all add: redis_empty_def)
  show ?thesis
    using store_failures_absorbed [of ?s "''demo_user''" "''image''" red_cube_key ?s "[]"
        red_cube "''a red cube''" default_CONFIG idle_extern "''demo_user''" "''t1''" "''c1''"
        ?t 10]
      1 2 3 4 5 6 7
    by simp
qed

text \<open>
  Against the claim as it is worded: with the store raising on every call, the limiter
  admits the request and the cache reports a miss, and the request of the scenario is
  answered 500; nothing is handed to a worker.
\<close>

theorem store_outage_reaches_caller:
  "fst (check_rate_limit ''demo_user'' ''image'' (redis_empty\<lparr>faults := [True, True, True]\<rparr>)) \<and>
   fst (generate_image default_CONFIG idle_extern ''demo_user'' red_cube ''t9'' ''c9''
          (redis_empty\<lparr>faults := [True, True, True]\<rparr>)) =
     Json 500 [(''error'', JStr ''Erro interno do servidor'')] \<and>
   fst (snd (generate_image default_CONFIG idle_extern ''demo_user'' red_cube ''t9'' ''c9''
          (redis_empty\<lparr>faults := [True, True, True]\<rparr>))) = None"
  by (simp add: generate_image_def generate_image_lookup_def generate_image_miss_def
      check_rate_limit_def get_cached_result_def redis_get_def redis_call_def publish_def
      red_cube_def redis_empty_def internal_error_def error_response_def Let_def)

section \<open>The submission endpoints, case by case\<close>

lemma publish_effect:
  assumes "publish r = (x, r')"
  shows "kv r' = kv r \<and> clock r' = clock r \<and> faults r' = tl (faults r) \<and>
         (trace r' = trace r \<or> trace r' = trace r @ [Raised])"
proof -
  obtain b r1 where c: "redis_call r = (b, r1)" by (cases "redis_call r")
  show ?thesis
  proof (cases b)
    case True
    with c have c': "redis_call r = (True, r1)" by simp
    from redis_call_True [OF c'] assms c' show ?thesis by (auto simp: publish_def)
  next
    case False
    with c have c': "redis_call r = (False, r1)" by simp
    from redis_call_False [OF c'] assms c' show ?thesis by (auto simp: publish_def)
  qed
qed

lemma generate_image_miss_shape:
  assumes "generate_image_miss X u tid cid prompt w h s gd sd ld k r2 = (resp, j, r')"
  shows "r' = snd (publish r2) \<and>
         (resp = internal_error \<and> (j = None \<or> (\<exists>job. j = Some job \<and> job_task_id job = tid)) \<or>
          (\<exists>est job.
             resp = Json 200 [(''task_id'', JStr tid), (''status'', JStr ''processing''),
                              (''estimated_time'', JInt est), (''celery_task_id'', JStr cid)] \<and>
             j = Some job \<and> job_task_id job = tid))"
proof -
  obtain x r3 where p: "publish r2 = (x, r3)" by (cases "publish r2")
  show ?thesis
  proof (cases x)
    case (Inl e)
    with p assms show ?thesis by (auto simp: generate_image_miss_def Let_def)
  next
    case (Inr v)
    with p assms show ?thesis
      by (cases "estimate_generation_time w h s")
         (auto simp: generate_image_miss_def Let_def)
  qed
qed

lemma generate_image_lookup_cases:
  assumes g: "generate_image_lookup X u tid cid prompt w h s gd sd ld r1 = (resp, j, r')"
  shows "\<exists>key.
           r' = snd (get_cached_result key r1) \<and>
             (resp = internal_error \<and> j = None \<or>
              (\<exists>d url. fst (get_cached_result key r1) = Some (RJson d) \<and>
                 map_of d ''image_url'' = Some url \<and>
                 resp = Json 200 [(''task_id'', JStr tid), (''status'', JStr ''completed''),
                                  (''image_url'', url), (''cached'', JBool True),
                                  (''generation_time'', JInt 0)] \<and>
                 j = None)) \<or>
           r' = snd (publish (snd (get_cached_result key r1))) \<and>
             (resp = internal_error \<and>
                (j = None \<or> (\<exists>job. j = Some job \<and> job_task_id job = tid)) \<or>
              (\<exists>est job.
                 resp = Json 200 [(''task_id'', JStr tid), (''status'', JStr ''processing''),
                                  (''estimated_time'', JInt est),
                                  (''celery_task_id'', JStr cid)] \<and>
                 j = Some job \<and> job_task_id job = tid))"
proof -
  let ?key = "generate_cache_key X prompt w h s gd sd ld"
  obtain v r2 where gc: "get_cached_result ?key r1 = (v, r2)"
    by (cases "get_cached_result ?key r1")
  have "r' = r2 \<and>
          (resp = internal_error \<and> j = None \<or>
           (\<exists>d url. v = Some (RJson d) \<and> map_of d ''image_url'' = Some url \<and>
              resp = Json 200 [(''task_id'', JStr tid), (''status'', JStr ''completed''),
                               (''image_url'', url), (''cached'', JBool True),
                               (''generation_time'', JInt 0)] \<and>
              j = None)) \<or>
        r' = snd (publish r2) \<and>
          (resp = internal_error \<and>
             (j = None \<or> (\<exists>job. j = Some job \<and> job_task_id job = tid)) \<or>
           (\<exists>est job.
              resp = Json 200 [(''task_id'', JStr tid), (''status'', JStr ''processing''),
                               (''estimated_time'', JInt est),
                               (''celery_task_id'', JStr cid)] \<and>
              j = Some job \<and> job_task_id job = tid))"
  proof (cases v)
    case None
    with g gc have "generate_image_miss X u tid cid prompt w h s gd sd ld ?key r2 = (resp, j, r')"
      by (simp add: generate_image_lookup_def)
    from generate_image_miss_shape [OF this] show ?thesis by blast
  next
    case (Some x)
    show ?thesis
    proof (cases x)
      case (RInt n)
      show ?thesis
      proof (cases "n = 0")
        case True
        with g gc Some RInt
        have "generate_image_miss X u tid cid prompt w h s gd sd ld ?key r2 = (resp, j, r')"
          by (simp add: generate_image_lookup_def)
        from generate_image_miss_shape [OF this] show ?thesis by blast
      next
        case False
        with g gc Some RInt show ?thesis by (simp add: generate_image_lookup_def)
      qed
    next
      case (RJson d)
      show ?thesis
      proof (cases "d = []")
        case True
        with g gc Some RJson
        have "generate_image_miss X u tid cid prompt w h s gd sd ld ?key r2 = (resp, j, r')"
          by (simp add: generate_image_lookup_def)
        from generate_image_miss_shape [OF this] show ?thesis by blast
      next
        case False
        with g gc Some RJson show ?thesis
          by (cases "map_of d ''image_url''") (auto simp: generate_image_lookup_def)
      qed
    qed
  qed
  with gc show ?thesis by (intro exI [of _ ?key]) simp
qed

lemma generate_image_cases:
  assumes g: "generate_image C X u data tid cid r = (resp, j, r')"
  shows "(check_rate_limit u ''image'' r = (False, r') \<and>
            resp = error_response 429 ''Rate limit excedido'' \<and> j = None) \<or>
         (check_rate_limit u ''image'' r = (True, r') \<and> j = None \<and>
            (\<exists>msg. resp = error_response 400 msg)) \<or>
         (\<exists>r1 key.
            check_rate_limit u ''image'' r = (True, r1) \<and>
            (r' = snd (get_cached_result key r1) \<and>
               (resp = internal_error \<and> j = None \<or>
                (\<exists>d url. fst (get_cached_result key r1) = Some (RJson d) \<and>
                   map_of d ''image_url'' = Some url \<and>
                   resp = Json 200 [(''task_id'', JStr tid), (''status'', JStr ''completed''),
                                    (''image_url'', url), (''cached'', JBool True),
                                    (''generation_time'', JInt 0)] \<and>
                   j = None)) \<or>
             r' = snd (publish (snd (get_cached_result key r1))) \<and>
               (resp = internal_error \<and>
                  (j = None \<or> (\<exists>job. j = Some job \<and> job_task_id job = tid)) \<or>
                (\<exists>est job.
                   resp = Json 200 [(''task_id'', JStr tid), (''status'', JStr ''processing''),
                                    (''estimated_time'', JInt est),
                                    (''celery_task_id'', JStr cid)] \<and>
                   j = Some job \<and> job_task_id job = tid))))"
proof -
  obtain b r1 where c: "check_rate_limit u ''image'' r = (b, r1)"
    by (cases "check_rate_limit u ''image'' r")
  show ?thesis
  proof (cases b)
    case False
    with c g show ?thesis by (simp add: generate_image_def)
  next
    case True
    with c have c': "check_rate_limit u ''image'' r = (True, r1)" by simp
    show ?thesis
    proof (cases "data_prompt data")
      case None
      with c' g show ?thesis by (auto simp: generate_image_def)
    next
      case (Some prompt)
      let ?steps = "case data_num_inference_steps data of None \<Rightarrow> 50 | Some n \<Rightarrow> n"
      show ?thesis
      proof (cases "1000 < length prompt")
        case True
        with c' g Some show ?thesis by (auto simp: generate_image_def Let_def)
      next
        case short: False
        show ?thesis
        proof (cases "?steps < 1 \<or> 100 < ?steps")
          case True
          with short c' g Some show ?thesis by (auto simp: generate_image_def Let_def)
        next
          case False
          with short c' g Some have
            "generate_image_lookup X u tid cid prompt
               (min (case data_width data of None \<Rightarrow> 512 | Some w \<Rightarrow> w) (MAX_IMAGE_SIZE C))
               (min (case data_height data of None \<Rightarrow> 512 | Some h \<Rightarrow> h) (MAX_IMAGE_SIZE C))
               ?steps
               (case data_guidance_scale data of None \<Rightarrow> PyFloat 15 (- 1) | Some g \<Rightarrow> g)
               (data_seed data) (data_lora data) r1 = (resp, j, r')"
            by (simp add: generate_image_def Let_def)
          from generate_image_lookup_cases [OF this] c' show ?thesis by blast
        qed
      qed
    qed
  qed
qed

lemma recorded_states_quiet:
  assumes "trace r' = trace r \<or> trace r' = trace r @ [Raised] \<or>
           (\<exists>k n. trace r' = trace r @ [Wrote k (RInt n)])"
  shows "recorded_states tid r' = recorded_states tid r"
  using assms by (auto simp: recorded_states_def List.map_filter_def)

lemma redis_get_effect:
  assumes "redis_get k r = (x, r')"
  shows "kv r' = kv r \<and> clock r' = clock r \<and> faults r' = tl (faults r) \<and>
         (trace r' = trace r \<or> trace r' = trace r @ [Raised])"
proof (cases x)
  case (Inl e)
  with assms redis_get_Inl show ?thesis by blast
next
  case (Inr v)
  with assms redis_get_Inr show ?thesis by blast
qed

lemma get_cached_result_effect:
  assumes "get_cached_result key r = (v, r')"
  shows "kv r' = kv r \<and> clock r' = clock r \<and> faults r' = tl (faults r) \<and>
         (trace r' = trace r \<or> trace r' = trace r @ [Raised])"
proof -
  obtain x r1 where g: "redis_get key r = (x, r1)" by (cases "redis_get key r")
  with assms have "r' = r1"
    by (auto simp: get_cached_result_def split: sum.splits option.splits)
  with redis_get_effect [OF g] show ?thesis by simp
qed

lemma get_task_info_effect:
  assumes "get_task_info tid r = (v, r')"
  shows "kv r' = kv r \<and> clock r' = clock r \<and> faults r' = tl (faults r) \<and>
         (trace r' = trace r \<or> trace r' = trace r @ [Raised])"
proof -
  obtain x r1 where g: "redis_get (task_key tid) r = (x, r1)"
    by (cases "redis_get (task_key tid) r")
  with assms have "r' = r1"
    by (auto simp: get_task_info_def split: sum.splits option.splits)
  with redis_get_effect [OF g] show ?thesis by simp
qed

lemma check_rate_limit_effect:
  assumes "check_rate_limit u e r = (b, r')"
  shows "clock r' = clock r \<and> (\<forall>k. k \<noteq> rate_key u e \<longrightarrow> kv r' k = kv r k) \<and>
         recorded_states tid r' = recorded_states tid r"
proof -
  let ?k = "rate_key u e"
  obtain x r1 where g: "redis_get ?k r = (x, r1)" by (cases "redis_get ?k r")
  note ge = redis_get_effect [OF g]
  have q1: "recorded_states tid r1 = recorded_states tid r"
    using ge by (intro recorded_states_quiet) auto
  have via_setex: "clock r2 = clock r \<and> (\<forall>k. k \<noteq> ?k \<longrightarrow> kv r2 k = kv r k) \<and>
         recorded_states tid r2 = recorded_states tid r"
    if "redis_setex ?k ttl (RInt n) r1 = (y, r2)" for ttl n y r2
  proof -
    note se = redis_setex_effect [OF that]
    have "recorded_states tid r2 = recorded_states tid r1"
      using se by (intro recorded_states_quiet) auto
    with se ge q1 show ?thesis by auto
  qed
  have via_incr: "clock r2 = clock r \<and> (\<forall>k. k \<noteq> ?k \<longrightarrow> kv r2 k = kv r k) \<and>
         recorded_states tid r2 = recorded_states tid r"
    if "redis_incr ?k r1 = (y, r2)" for y r2
  proof -
    note ie = redis_incr_effect [OF that]
    have "recorded_states tid r2 = recorded_states tid r1"
      using ie by (intro recorded_states_quiet) auto
    with ie ge q1 show ?thesis by auto
  qed
  show ?thesis
  proof (cases x)
    case (Inl err)
    with g assms have "r' = r1" by (simp add: check_rate_limit_def)
    with ge q1 show ?thesis by simp
  next
    case (Inr v)
    show ?thesis
    proof (cases v)
      case None
      obtain y r2 where s: "redis_setex ?k rate_limit_window (RInt 1) r1 = (y, r2)"
        by (cases "redis_setex ?k rate_limit_window (RInt 1) r1")
      with g Inr None assms have "r' = r2" by (simp add: check_rate_limit_def)
      with via_setex [OF s] show ?thesis by simp
    next
      case (Some w)
      show ?thesis
      proof (cases w)
        case (RJson d)
        with g Inr Some assms have "r' = r1" by (simp add: check_rate_limit_def)
        with ge q1 show ?thesis by simp
      next
        case (RInt c)
        show ?thesis
        proof (cases "rate_limit_of u \<le> c")
          case True
          with g Inr Some RInt assms have "r' = r1" by (simp add: check_rate_limit_def)
          with ge q1 show ?thesis by simp
        next
          case False
          obtain y r2 where i: "redis_incr ?k r1 = (y, r2)" by (cases "redis_incr ?k r1")
          with g Inr Some RInt False assms have "r' = r2" by (simp add: check_rate_limit_def)
          with via_incr [OF i] show ?thesis by simp
        qed
      qed
    qed
  qed
qed

lemma task_key_not_rate_key: "task_key tid \<noteq> rate_key u e"
  by (simp add: task_key_def rate_key_def)

lemma task_record_cong:
  "kv r' (task_key tid) = kv r (task_key tid) \<Longrightarrow> clock r' = clock r \<Longrightarrow>
   task_record r' tid = task_record r tid"
  by (simp add: task_record_def lookup_def split: option.splits)

lemma no_record_not_found:
  assumes "task_record r tid = None"
  shows "fst (get_task_status tid u r) = task_not_found \<and>
         fst (get_task_result X tid u r) = task_not_found"
proof -
  obtain x r' where g: "get_task_info tid r = (x, r')" by (cases "get_task_info tid r")
  from get_task_info_cases [OF g] assms have "x = None" by simp
  with g show ?thesis by (simp add: get_task_status_def get_task_result_def)
qed

lemma generate_image_effect:
  assumes g: "generate_image C X u data tid cid r = (resp, j, r')"
  shows "clock r' = clock r \<and> (\<forall>k. k \<noteq> rate_key u ''image'' \<longrightarrow> kv r' k = kv r k) \<and>
         recorded_states t r' = recorded_states t r"
proof -
  have step: "clock r2 = clock r \<and> (\<forall>k. k \<noteq> rate_key u ''image'' \<longrightarrow> kv r2 k = kv r k) \<and>
         recorded_states t r2 = recorded_states t r"
    if c: "check_rate_limit u ''image'' r = (b, r1)"
      and r2: "r2 = r1 \<or> r2 = snd (get_cached_result key r1) \<or>
               r2 = snd (publish (snd (get_cached_result key r1)))" for b r1 r2 key
  proof -
    note ce = check_rate_limit_effect [OF c, of t]
    obtain v r3 where gc: "get_cached_result key r1 = (v, r3)"
      by (cases "get_cached_result key r1")
    note ge = get_cached_result_effect [OF gc]
    obtain x r4 where pb: "publish r3 = (x, r4)" by (cases "publish r3")
    note pe = publish_effect [OF pb]
    have q3: "recorded_states t r3 = recorded_states t r1"
      using ge by (intro recorded_states_quiet) auto
    have q4: "recorded_states t r4 = recorded_states t r3"
      using pe by (intro recorded_states_quiet) auto
    from r2 gc pb have "r2 = r1 \<or> r2 = r3 \<or> r2 = r4" by simp
    then show ?thesis
    proof (elim disjE)
      assume "r2 = r1"
      with ce show ?thesis by simp
    next
      assume "r2 = r3"
      with ce ge q3 show ?thesis by simp
    next
      assume "r2 = r4"
      with ce ge pe q3 q4 show ?thesis by simp
    qed
  qed
  from generate_image_cases [OF g]
  have "\<exists>b r1 key. check_rate_limit u ''image'' r = (b, r1) \<and>
          (r' = r1 \<or> r' = snd (get_cached_result key r1) \<or>
           r' = snd (publish (snd (get_cached_result key r1))))"
    by blast
  then obtain b r1 key where "check_rate_limit u ''image'' r = (b, r1)"
    and "r' = r1 \<or> r' = snd (get_cached_result key r1) \<or>
         r' = snd (publish (snd (get_cached_result key r1)))"
    by blast
  then show ?thesis by (rule step)
qed

text \<open>
  Claim C9. A cache hit answers with a task id for which nothing is written: no job is
  handed to a worker and the task records are as before. If no record is stored under that
  (fresh) id, \<open>get_task_status\<close> and \<open>get_task_result\<close> answer 404 for every caller,
  although the response itself said \<open>completed\<close>.
\<close>

theorem cache_hit_leaves_no_task:
  assumes g: "generate_image C X user_id data task_id celery_id r = (Json 200 body, j, r')"
    and hit: "map_of body ''cached'' = Some (JBool True)"
    and fresh: "task_record r task_id = None"
  shows "j = None \<and>
         map_of body ''status'' = Some (JStr ''completed'') \<and>
         map_of body ''task_id'' = Some (JStr task_id) \<and>
         task_record r' task_id = None \<and>
         recorded_states task_id r' = recorded_states task_id r \<and>
         fst (get_task_status task_id caller r') = task_not_found \<and>
         fst (get_task_result X task_id caller r') = task_not_found"
proof -
  from generate_image_cases [OF g] hit
  have shape: "j = None \<and> map_of body ''status'' = Some (JStr ''completed'') \<and>
               map_of body ''task_id'' = Some (JStr task_id)"
    by (auto simp: error_response_def internal_error_def)
  note e = generate_image_effect [OF g, of task_id]
  from e task_key_not_rate_key have "kv r' (task_key task_id) = kv r (task_key task_id)"
    by blast
  with e fresh have none: "task_record r' task_id = None"
    using task_record_cong [of r' task_id r] by simp
  from no_record_not_found [OF none] shape none e show ?thesis by simp
qed

lemma cache_key_not_rate_key [simp]:
  "generate_cache_key X p w h s g sd l \<noteq> rate_key u e"
  "rate_key u e \<noteq> generate_cache_key X p w h s g sd l"
  by (simp_all add: generate_cache_key_def cache_key_of_def rate_key_def)

lemma cache_key_not_task_key [simp]:
  "generate_cache_key X p w h s g sd l \<noteq> task_key t"
  "task_key t \<noteq> generate_cache_key X p w h s g sd l"
  by (simp_all add: generate_cache_key_def cache_key_of_def task_key_def)

lemma red_cube_hit:
  "fst (generate_image default_CONFIG idle_extern ''demo_user'' red_cube ''t1'' ''c1'' warm_store) =
     Json 200 [(''task_id'', JStr ''t1''), (''status'', JStr ''completed''),
               (''image_url'', JStr ''/task/t0/result''), (''cached'', JBool True),
               (''generation_time'', JInt 0)]"
  by (simp add: generate_image_def generate_image_lookup_def check_rate_limit_def
      get_cached_result_def redis_get_def redis_setex_def redis_call_def lookup_def live_def
      warm_store_def cache_result_def redis_empty_def red_cube_def red_cube_key_def
      default_CONFIG_def Let_def rate_limit_window_def cache_ttl_def)

theorem cache_hit_leaves_no_task_witness:
  "fst (snd (generate_image default_CONFIG idle_extern ''demo_user'' red_cube ''t1'' ''c1''
              warm_store)) = None \<and>
   task_record (snd (snd (generate_image default_CONFIG idle_extern ''demo_user'' red_cube
                            ''t1'' ''c1'' warm_store))) ''t1'' = None \<and>
   fst (get_task_status ''t1'' ''demo_user''
          (snd (snd (generate_image default_CONFIG idle_extern ''demo_user'' red_cube
                       ''t1'' ''c1'' warm_store)))) = task_not_found \<and>
   fst (get_task_result idle_extern ''t1'' ''demo_user''
          (snd (snd (generate_image default_CONFIG idle_extern ''demo_user'' red_cube
                       ''t1'' ''c1'' warm_store)))) = task_not_found"
proof -
  let ?G = "generate_image default_CONFIG idle_extern ''demo_user'' red_cube ''t1'' ''c1''
              warm_store"
  have 1: "?G = (Json 200 [(''task_id'', JStr ''t1''), (''status'', JStr ''completed''),
               (''image_url'', JStr ''/task/t0/result''), (''cached'', JBool True),
               (''generation_time'', JInt 0)], fst (snd ?G), snd (snd ?G))"
    using red_cube_hit by (metis prod.collapse)
  have 2: "task_record warm_store ''t1'' = None"
    by (simp add: task_record_def lookup_def warm_store_def cache_result_def redis_setex_def
        redis_call_def redis_empty_def red_cube_key_def)
  show ?thesis
    using cache_hit_leaves_no_task [OF 1 _ 2, where caller = "''demo_user''"] by simp
qed

section \<open>The rate limiter, step by step\<close>

lemma redis_call_Nil: "faults r = [] \<Longrightarrow> redis_call r = (False, r)"
  by (simp add: redis_call_def)

lemma rate_limit_of_values: "rate_limit_of u = 10 \<or> rate_limit_of u = 100"
  by (simp add: rate_limit_of_def valid_api_keys_def)

lemma check_rate_limit_first:
  assumes "faults r = []" and "lookup r (rate_key u e) = None"
  shows "check_rate_limit u e r =
           (True, r\<lparr>kv := (kv r)(rate_key u e \<mapsto> (RInt 1, Some (clock r + rate_limit_window))),
                   trace := trace r @ [Wrote (rate_key u e) (RInt 1)]\<rparr>)"
  using assms
  by (simp add: check_rate_limit_def redis_get_def redis_setex_def redis_call_Nil Let_def)

lemma check_rate_limit_next:
  assumes "faults r = []" and "lookup r (rate_key u e) = Some (RInt c, ex)"
    and "c < rate_limit_of u"
  shows "check_rate_limit u e r =
           (True, r\<lparr>kv := (kv r)(rate_key u e \<mapsto> (RInt (c + 1), ex)),
                   trace := trace r @ [Wrote (rate_key u e) (RInt (c + 1))]\<rparr>)"
  using assms
  by (simp add: check_rate_limit_def redis_get_def redis_incr_def redis_call_Nil Let_def)

lemma check_rate_limit_full:
  assumes "faults r = []" and "lookup r (rate_key u e) = Some (RInt c, ex)"
    and "rate_limit_of u \<le> c"
  shows "check_rate_limit u e r = (False, r)"
  using assms
  by (simp add: check_rate_limit_def redis_get_def redis_call_Nil Let_def)

lemma lookup_tick:
  assumes "kv r k = Some (v, Some T)" and "clock r + d \<le> T"
  shows "lookup (tick d r) k = Some (v, Some T)"
  using assms by (simp add: lookup_def tick_def live_def)

lemma lookup_tick_expired:
  assumes "kv r k = Some (v, Some T)" and "T < clock r + d"
  shows "lookup (tick d r) k = None"
  using assms by (simp add: lookup_def tick_def live_def)

lemma upt_0_Suc_map: "[0..<Suc n] = 0 # map Suc [0..<n]"
  by (simp add: upt_conv_Cons map_Suc_upt del: upt_Suc)

lemma requests_in_window:
  assumes "faults r = []"
    and "kv r (rate_key u e) = Some (RInt c, Some T)"
    and "clock r + sum_list ds \<le> T"
    and "c \<le> rate_limit_of u"
  shows "fst (requests u e ds r) = map (\<lambda>i. c + int i < rate_limit_of u) [0..<length ds] \<and>
         kv (snd (requests u e ds r)) (rate_key u e) =
           Some (RInt (min (c + int (length ds)) (rate_limit_of u)), Some T) \<and>
         clock (snd (requests u e ds r)) = clock r + sum_list ds \<and>
         faults (snd (requests u e ds r)) = []"
  using assms
proof (induction ds arbitrary: r c)
  case Nil
  then show ?case by simp
next
  case (Cons d ds)
  let ?k = "rate_key u e"
  let ?N = "rate_limit_of u"
  let ?r0 = "tick d r"
  have f0: "faults ?r0 = []" using Cons.prems(1) by (simp add: tick_def)
  have l0: "lookup ?r0 ?k = Some (RInt c, Some T)"
    using Cons.prems(2,3) by (intro lookup_tick) simp_all
  show ?case
  proof (cases "c < ?N")
    case True
    let ?r1 = "?r0\<lparr>kv := (kv ?r0)(?k \<mapsto> (RInt (c + 1), Some T)),
                    trace := trace ?r0 @ [Wrote ?k (RInt (c + 1))]\<rparr>"
    have c1: "check_rate_limit u e ?r0 = (True, ?r1)"
      using check_rate_limit_next [OF f0 l0 True] .
    have p1: "faults ?r1 = []" using f0 by simp
    have p2: "kv ?r1 ?k = Some (RInt (c + 1), Some T)" by simp
    have p3: "clock ?r1 + sum_list ds \<le> T" using Cons.prems(3) by (simp add: tick_def)
    have p4: "c + 1 \<le> ?N" using True by simp
    note ih = Cons.IH [OF p1 p2 p3 p4]
    have m: "map (\<lambda>i. c + int i < ?N) [0..<length (d # ds)] =
             True # map (\<lambda>i. c + 1 + int i < ?N) [0..<length ds]"
      using True by (simp add: upt_0_Suc_map comp_def add.assoc del: upt_Suc)
    have cl: "clock ?r1 = clock r + d" by (simp add: tick_def)
    show ?thesis
      using ih c1 m cl by (simp add: split_beta add.assoc)
  next
    case False
    with Cons.prems(4) have eq: "c = ?N" by simp
    have c1: "check_rate_limit u e ?r0 = (False, ?r0)"
      using check_rate_limit_full [OF f0 l0] False by simp
    have p2: "kv ?r0 ?k = Some (RInt c, Some T)" using Cons.prems(2) by (simp add: tick_def)
    have p3: "clock ?r0 + sum_list ds \<le> T" using Cons.prems(3) by (simp add: tick_def)
    note ih = Cons.IH [OF f0 p2 p3 Cons.prems(4)]
    have m: "map (\<lambda>i. c + int i < ?N) [0..<length (d # ds)] =
             False # map (\<lambda>i. c + int i < ?N) [0..<length ds]"
      using eq by (simp add: upt_0_Suc_map comp_def del: upt_Suc)
    have cl: "clock ?r0 = clock r + d" by (simp add: tick_def)
    show ?thesis
      using ih c1 m cl eq by (simp add: split_beta add.assoc)
  qed
qed

section \<open>The fixed window of the rate limiter\<close>

text \<open>
  Claim C4. A caller with ceiling \<open>N\<close> whose counter for a kind of endpoint does not
  exist sends a series of requests within one window (no later than 60 seconds after the
  first), the store answering every call. The request number \<open>i\<close> (from 0) is admitted exactly when \<open>i < N\<close>: the first
  \<open>N\<close> are admitted and all later ones are rejected. The first request creates the counter at
  1 with an expiry one window after it; an admitted request adds one, a rejected request adds
  nothing, so the counter stands at the smaller of the number of requests and \<open>N\<close>, with
  the expiry unchanged. A request that arrives after the window has elapsed (later than the
  expiry) finds no counter, is admitted, and starts a new window at 1.
\<close>

theorem rate_limit_fixed_window:
  assumes nf: "faults r = []"
    and fresh: "lookup r (rate_key u e) = None"
    and within: "sum_list ds \<le> rate_limit_window"
  shows "fst (requests u e (0 # ds) r) =
           map (\<lambda>i. int i < rate_limit_of u) [0..<Suc (length ds)] \<and>
         lookup (snd (requests u e (0 # ds) r)) (rate_key u e) =
           Some (RInt (min (1 + int (length ds)) (rate_limit_of u)),
                 Some (clock r + rate_limit_window)) \<and>
         (rate_limit_window < sum_list ds + d \<longrightarrow>
            fst (check_rate_limit u e (tick d (snd (requests u e (0 # ds) r)))) \<and>
            lookup (snd (check_rate_limit u e (tick d (snd (requests u e (0 # ds) r)))))
              (rate_key u e) =
              Some (RInt 1, Some (clock r + sum_list ds + d + rate_limit_window)))"
proof -
  let ?k = "rate_key u e"
  let ?N = "rate_limit_of u"
  let ?T = "clock r + rate_limit_window"
  let ?r1 = "r\<lparr>kv := (kv r)(?k \<mapsto> (RInt 1, Some ?T)),
                 trace := trace r @ [Wrote ?k (RInt 1)]\<rparr>"
  have t0: "tick 0 r = r" by (simp add: tick_def)
  have c1: "check_rate_limit u e r = (True, ?r1)"
    using check_rate_limit_first [OF nf fresh] .
  have p1: "faults ?r1 = []" using nf by simp
  have p2: "kv ?r1 ?k = Some (RInt 1, Some ?T)" by simp
  have p3: "clock ?r1 + sum_list ds \<le> ?T" using within by simp
  have p4: "1 \<le> ?N" using rate_limit_of_values [of u] by auto
  note w = requests_in_window [OF p1 p2 p3 p4]
  let ?r2 = "snd (requests u e ds ?r1)"
  have run: "requests u e (0 # ds) r = (True # fst (requests u e ds ?r1), ?r2)"
    using c1 t0 by (simp add: split_beta)
  have m: "map (\<lambda>i. int i < ?N) [0..<Suc (length ds)] =
           True # map (\<lambda>i. 1 + int i < ?N) [0..<length ds]"
    using p4 by (simp add: upt_0_Suc_map comp_def del: upt_Suc)
  have a: "fst (requests u e (0 # ds) r) = map (\<lambda>i. int i < ?N) [0..<Suc (length ds)]"
    using run w m by simp
  have cl: "clock ?r2 = clock r + sum_list ds" using w by simp
  have kv2: "kv ?r2 ?k = Some (RInt (min (1 + int (length ds)) ?N), Some ?T)"
    using w by simp
  have b: "lookup (snd (requests u e (0 # ds) r)) ?k =
             Some (RInt (min (1 + int (length ds)) ?N), Some ?T)"
    using run kv2 cl within by (simp add: lookup_def live_def)
  have c: "fst (check_rate_limit u e (tick d (snd (requests u e (0 # ds) r)))) \<and>
           lookup (snd (check_rate_limit u e (tick d (snd (requests u e (0 # ds) r))))) ?k =
             Some (RInt 1, Some (clock r + sum_list ds + d + rate_limit_window))"
    if late: "rate_limit_window < sum_list ds + d"
  proof -
    let ?r3 = "tick d ?r2"
    have f3: "faults ?r3 = []" using w by (simp add: tick_def)
    have le: "clock r + rate_limit_window < clock ?r2 + d"
      using cl late by linarith
    have l3: "lookup ?r3 ?k = None"
      using lookup_tick_expired [OF kv2 le] .
    have c3: "clock ?r3 = clock r + sum_list ds + d" using cl by (simp add: tick_def)
    show ?thesis
      using check_rate_limit_first [OF f3 l3] run c3
      by (simp add: lookup_def live_def rate_limit_window_def)
  qed
  show ?thesis using a b c by blast
qed

text \<open>
  The demo caller (ceiling 10) sends eleven image requests one second apart: ten pass, the
  eleventh is rejected, the counter stays at 10 and expires at second 60; a request 51 seconds
  later, at second 61, is admitted and the counter restarts at 1.
\<close>

theorem rate_limit_fixed_window_witness:
  "fst (requests ''demo_user'' ''image'' (0 # replicate 10 1) redis_empty) =
     replicate 10 True @ [False] \<and>
   lookup (snd (requests ''demo_user'' ''image'' (0 # replicate 10 1) redis_empty))
     (rate_key ''demo_user'' ''image'') = Some (RInt 10, Some 60) \<and>
   fst (check_rate_limit ''demo_user'' ''image''
          (tick 51 (snd (requests ''demo_user'' ''image'' (0 # replicate 10 1) redis_empty)))) \<and>
   lookup (snd (check_rate_limit ''demo_user'' ''image''
          (tick 51 (snd (requests ''demo_user'' ''image'' (0 # replicate 10 1) redis_empty)))))
     (rate_key ''demo_user'' ''image'') = Some (RInt 1, Some 121)"
proof -
  have 1: "faults redis_empty = []" by (simp add: redis_empty_def)
  have 2: "lookup redis_empty (rate_key ''demo_user'' ''image'') = None"
    by (simp add: lookup_def redis_empty_def)
  have 3: "sum_list (replicate 10 (1::nat)) \<le> rate_limit_window"
    by (simp add: rate_limit_window_def sum_list_replicate)
  have 4: "rate_limit_of ''demo_user'' = 10"
    by (simp add: rate_limit_of_def valid_api_keys_def)
  have 5: "map (\<lambda>i. int i < 10) [0..<Suc (length (replicate 10 (1::nat)))] =
           replicate 10 True @ [False]"
    by (simp add: upt_rec numeral_eq_Suc)
  have 6: "clock redis_empty = 0" by (simp add: redis_empty_def)
  show ?thesis
    using rate_limit_fixed_window [OF 1 2 3, of 51] 4 5 6
    by (simp add: rate_limit_window_def sum_list_replicate)
qed

section \<open>Validation comes after the rate limit\<close>

lemma check_rate_limit_room:
  assumes nf: "faults r = []" and room: "has_room r u e"
  shows "fst (check_rate_limit u e r) \<and>
         counter (snd (check_rate_limit u e r)) u e = counter r u e + 1"
proof (cases "lookup r (rate_key u e)")
  case None
  from check_rate_limit_first [OF nf None] None show ?thesis
    by (simp add: counter_def lookup_def live_def rate_limit_window_def)
next
  case (Some ent)
  obtain v ex where ent: "ent = (v, ex)" by (cases ent)
  from room Some ent obtain c where v: "v = RInt c" and c: "c < rate_limit_of u"
    by (cases v) (auto simp: has_room_def)
  have l: "lookup r (rate_key u e) = Some (RInt c, ex)" using Some ent v by simp
  from l have lv: "live (clock r) (RInt c, ex)"
    by (auto simp: lookup_def split: option.splits if_splits)
  then have lv': "live (clock r) (RInt (c + 1), ex)" by (simp add: live_def)
  from check_rate_limit_next [OF nf l c] l lv' show ?thesis
    by (simp add: counter_def lookup_def)
qed

lemma generate_image_invalid:
  assumes "image_validation_error data = Some msg"
  shows "generate_image C X u data tid cid r =
           (if fst (check_rate_limit u ''image'' r) then error_response 400 msg
            else error_response 429 ''Rate limit excedido'',
            None, snd (check_rate_limit u ''image'' r))"
proof -
  obtain b r1 where c: "check_rate_limit u ''image'' r = (b, r1)"
    by (cases "check_rate_limit u ''image'' r")
  show ?thesis
  proof (cases "data_prompt data")
    case None
    with assms c show ?thesis
      by (cases b) (simp_all add: generate_image_def image_validation_error_def)
  next
    case (Some prompt)
    with assms c show ?thesis
      by (cases b)
         (auto simp: generate_image_def image_validation_error_def Let_def
            split: if_splits)
  qed
qed

lemma generate_video_invalid:
  assumes "video_validation_error C data = Some msg"
  shows "generate_video C X u data tid cid r =
           (if fst (check_rate_limit u ''video'' r) then error_response 400 msg
            else error_response 429 ''Rate limit excedido'',
            None, snd (check_rate_limit u ''video'' r))"
proof -
  obtain b r1 where c: "check_rate_limit u ''video'' r = (b, r1)"
    by (cases "check_rate_limit u ''video'' r")
  show ?thesis
  proof (cases "data_prompt data")
    case None
    with assms c show ?thesis
      by (cases b) (simp_all add: generate_video_def video_validation_error_def)
  next
    case (Some prompt)
    show ?thesis
    proof (cases "data_duration data")
      case None
      with Some assms c show ?thesis
        by (cases b) (simp_all add: generate_video_def video_validation_error_def)
    next
      case d: (Some d)
      with Some assms c show ?thesis
        by (cases b)
           (auto simp: generate_video_def video_validation_error_def Let_def
              split: if_splits)
    qed
  qed
qed

text \<open>
  Claim C10. Both submission endpoints call \<open>check_rate_limit\<close> first and validate the
  body afterwards. So, with the store answering every call and the caller's counter leaving
  room for a request, an image or video request that fails validation (no prompt, a prompt
  of more than 1000 characters, a step count outside 1..100, no duration, a duration outside
  the allowed range, an fps outside 1..60) is answered 400 with the message of the failed
  test, hands no job to the queue, leaves the store as the rate-limit check alone leaves it,
  and has raised the caller's counter for that operation class by one.
\<close>

theorem validation_error_consumes_quota:
  assumes nf: "faults r = []"
  shows "(has_room r u ''image'' \<and> image_validation_error data = Some msg \<longrightarrow>
            fst (generate_image C X u data tid cid r) = error_response 400 msg \<and>
            fst (snd (generate_image C X u data tid cid r)) = None \<and>
            snd (snd (generate_image C X u data tid cid r)) =
              snd (check_rate_limit u ''image'' r) \<and>
            counter (snd (snd (generate_image C X u data tid cid r))) u ''image'' =
              counter r u ''image'' + 1) \<and>
         (has_room r u ''video'' \<and> video_validation_error C vdata = Some vmsg \<longrightarrow>
            fst (generate_video C X u vdata tid cid r) = error_response 400 vmsg \<and>
            fst (snd (generate_video C X u vdata tid cid r)) = None \<and>
            snd (snd (generate_video C X u vdata tid cid r)) =
              snd (check_rate_limit u ''video'' r) \<and>
            counter (snd (snd (generate_video C X u vdata tid cid r))) u ''video'' =
              counter r u ''video'' + 1)"
proof (intro conjI impI)
  assume a: "has_room r u ''image'' \<and> image_validation_error data = Some msg"
  then have inv: "image_validation_error data = Some msg" by simp
  from a have ok: "fst (check_rate_limit u ''image'' r) \<and>
      counter (snd (check_rate_limit u ''image'' r)) u ''image'' = counter r u ''image'' + 1"
    using check_rate_limit_room [OF nf] by blast
  note g = generate_image_invalid [OF inv, of C X u tid cid r]
  show "fst (generate_image C X u data tid cid r) = error_response 400 msg"
    using g ok by simp
  show "fst (snd (generate_image C X u data tid cid r)) = None"
    using g by simp
  show "snd (snd (generate_image C X u data tid cid r)) = snd (check_rate_limit u ''image'' r)"
    using g by simp
  show "counter (snd (snd (generate_image C X u data tid cid r))) u ''image'' =
          counter r u ''image'' + 1"
    using g ok by simp
next
  assume a: "has_room r u ''video'' \<and> video_validation_error C vdata = Some vmsg"
  then have inv: "video_validation_error C vdata = Some vmsg" by simp
  from a have ok: "fst (check_rate_limit u ''video'' r) \<and>
      counter (snd (check_rate_limit u ''video'' r)) u ''video'' = counter r u ''video'' + 1"
    using check_rate_limit_room [OF nf] by blast
  note g = generate_video_invalid [OF inv, of X u tid cid r]
  show "fst (generate_video C X u vdata tid cid r) = error_response 400 vmsg"
    using g ok by simp
  show "fst (snd (generate_video C X u vdata tid cid r)) = None"
    using g by simp
  show "snd (snd (generate_video C X u vdata tid cid r)) = snd (check_rate_limit u ''video'' r)"
    using g by simp
  show "counter (snd (snd (generate_video C X u vdata tid cid r))) u ''video'' =
          counter r u ''video'' + 1"
    using g ok by simp
qed

text \<open>
  The demo caller sends the body \<open>{}\<close> to each endpoint of a fresh store: both requests
  are answered 400 and both counters stand at 1.
\<close>

theorem validation_error_consumes_quota_witness:
  "fst (generate_image default_CONFIG idle_extern ''demo_user'' no_body ''t1'' ''c1''
          redis_empty) = error_response 400 ''Prompt e obrigatorio'' \<and>
   counter (snd (snd (generate_image default_CONFIG idle_extern ''demo_user'' no_body ''t1''
          ''c1'' redis_empty))) ''demo_user'' ''image'' = 1 \<and>
   fst (generate_video default_CONFIG idle_extern ''demo_user'' no_body ''t1'' ''c1''
          redis_empty) = error_response 400 ''Prompt e duration sao obrigatorios'' \<and>
   counter (snd (snd (generate_video default_CONFIG idle_extern ''demo_user'' no_body ''t1''
          ''c1'' redis_empty))) ''demo_user'' ''video'' = 1"
proof -
  have 1: "faults redis_empty = []" by (simp add: redis_empty_def)
  have 2: "has_room redis_empty ''demo_user'' e" for e
    by (simp add: has_room_def lookup_def redis_empty_def)
  have 3: "image_validation_error no_body = Some ''Prompt e obrigatorio''"
    by (simp add: image_validation_error_def no_body_def)
  have 4: "video_validation_error default_CONFIG no_body =
             Some ''Prompt e duration sao obrigatorios''"
    by (simp add: video_validation_error_def no_body_def)
  have 5: "counter redis_empty ''demo_user'' e = 0" for e
    by (simp add: counter_def lookup_def redis_empty_def)
  have "fst (generate_image default_CONFIG idle_extern ''demo_user'' no_body ''t1'' ''c1''
               redis_empty) = error_response 400 ''Prompt e obrigatorio'' \<and>
        counter (snd (snd (generate_image default_CONFIG idle_extern ''demo_user'' no_body
               ''t1'' ''c1'' redis_empty))) ''demo_user'' ''image'' =
          counter redis_empty ''demo_user'' ''image'' + 1 \<and>
        fst (generate_video default_CONFIG idle_extern ''demo_user'' no_body ''t1'' ''c1''
               redis_empty) = error_response 400 ''Prompt e duration sao obrigatorios'' \<and>
        counter (snd (snd (generate_video default_CONFIG idle_extern ''demo_user'' no_body
               ''t1'' ''c1'' redis_empty))) ''demo_user'' ''video'' =
          counter redis_empty ''demo_user'' ''video'' + 1"
    using validation_error_consumes_quota [OF 1, of "''demo_user''" no_body
        "''Prompt e obrigatorio''" default_CONFIG idle_extern "''t1''" "''c1''" no_body
        "''Prompt e duration sao obrigatorios''"] 2 3 4
    by blast
  then show ?thesis by (simp add: 5)
qed

section \<open>The states that a worker records\<close>

lemma recorded_states_append:
  "trace r' = trace r @ evs \<Longrightarrow>
   recorded_states t r' = recorded_states t r @ List.map_filter (written_state t) evs"
  by (simp add: recorded_states_def List.map_filter_def)

lemma task_key_inj: "task_key a = task_key b \<longleftrightarrow> a = b"
  by (simp add: task_key_def)

lemma update_task_status_states:
  "recorded_states t (update_task_status tid st kw r) = recorded_states t r \<or>
   t = tid \<and> recorded_states t (update_task_status tid st kw r) = recorded_states t r @ [JStr st]"
proof -
  let ?d = "[(''task_id'', JStr tid), (''status'', JStr st),
             (''updated_at'', JFloat (now_float r))] @ kw"
  obtain x r2 where s: "redis_setex (task_key tid) task_ttl (RJson ?d) r = (x, r2)"
    by (cases "redis_setex (task_key tid) task_ttl (RJson ?d) r")
  then have u: "update_task_status tid st kw r = r2"
    by (simp add: update_task_status_def Let_def)
  from redis_setex_effect [OF s]
  have "trace r2 = trace r @ [Raised] \<or> trace r2 = trace r @ [Wrote (task_key tid) (RJson ?d)]"
    by auto
  then show ?thesis
  proof
    assume "trace r2 = trace r @ [Raised]"
    from recorded_states_append [OF this, of t] u show ?thesis
      by (simp add: List.map_filter_def)
  next
    assume "trace r2 = trace r @ [Wrote (task_key tid) (RJson ?d)]"
    from recorded_states_append [OF this, of t] u show ?thesis
      by (cases "t = tid") (simp_all add: List.map_filter_def task_key_inj)
  qed
qed

lemma update_task_status_quiet:
  "faults r = [] \<Longrightarrow>
   recorded_states t (update_task_status tid st kw r) =
     recorded_states t r @ (if t = tid then [JStr st] else []) \<and>
   faults (update_task_status tid st kw r) = [] \<and>
   clock (update_task_status tid st kw r) = clock r"
  by (simp add: update_task_status_def redis_setex_def redis_call_Nil Let_def
      recorded_states_def List.map_filter_def task_key_inj)

lemma cache_result_states:
  "map_of d ''status'' = None \<Longrightarrow>
   recorded_states t (cache_result k d r) = recorded_states t r"
proof -
  assume n: "map_of d ''status'' = None"
  obtain x r2 where s: "redis_setex k cache_ttl (RJson d) r = (x, r2)"
    by (cases "redis_setex k cache_ttl (RJson d) r")
  then have u: "cache_result k d r = r2" by (simp add: cache_result_def)
  from redis_setex_effect [OF s]
  have "trace r2 = trace r @ [Raised] \<or> trace r2 = trace r @ [Wrote k (RJson d)]"
    by auto
  then show ?thesis
  proof
    assume "trace r2 = trace r @ [Raised]"
    from recorded_states_append [OF this, of t] u show ?thesis
      by (simp add: List.map_filter_def)
  next
    assume "trace r2 = trace r @ [Wrote k (RJson d)]"
    from recorded_states_append [OF this, of t] u n show ?thesis
      by (simp add: List.map_filter_def)
  qed
qed

lemma tick_states: "recorded_states t (tick d r) = recorded_states t r"
  by (simp add: recorded_states_def tick_def)

lemma two_writes:
  assumes "recorded_states t r1 = recorded_states t r \<or>
           t = tid \<and> recorded_states t r1 = recorded_states t r @ [x]"
    and "recorded_states t r2 = recorded_states t r1 \<or>
         t = tid \<and> recorded_states t r2 = recorded_states t r1 @ [y]"
  shows "\<exists>xs. recorded_states t r2 = recorded_states t r @ xs \<and> (t \<noteq> tid \<longrightarrow> xs = []) \<and>
              subseq xs [x, y]"
proof -
  from assms consider
      "recorded_states t r2 = recorded_states t r @ []"
    | "t = tid" "recorded_states t r2 = recorded_states t r @ [x]"
    | "t = tid" "recorded_states t r2 = recorded_states t r @ [y]"
    | "t = tid" "recorded_states t r2 = recorded_states t r @ [x, y]"
    by auto
  then show ?thesis
  proof cases
    case 1
    then show ?thesis by (intro exI [of _ "[]"]) simp
  next
    case 2
    then show ?thesis by (intro exI [of _ "[x]"]) simp
  next
    case 3
    then show ?thesis by (intro exI [of _ "[y]"]) simp
  next
    case 4
    then show ?thesis by (intro exI [of _ "[x, y]"]) simp
  qed
qed

lemma generate_image_task_states:
  "\<exists>xs. recorded_states t (snd (generate_image_task C gen tid p w h s g sd lp ck u r)) =
           recorded_states t r @ xs \<and>
        (t \<noteq> tid \<longrightarrow> xs = []) \<and>
        subseq xs [JStr ''processing'', JStr (terminal gen)]"
proof -
  let ?r1 = "update_task_status tid ''processing'' [(''user_id'', JStr u)] r"
  note a = update_task_status_states [of t tid "''processing''" "[(''user_id'', JStr u)]" r]
  show ?thesis
  proof (cases gen)
    case (Fails dt msg)
    let ?r2 = "update_task_status tid ''failed''
                 [(''error'', JStr msg), (''user_id'', JStr u)] (tick dt ?r1)"
    have b: "recorded_states t ?r2 = recorded_states t ?r1 \<or>
             t = tid \<and> recorded_states t ?r2 = recorded_states t ?r1 @ [JStr ''failed'']"
      using update_task_status_states [of t tid "''failed''" _ "tick dt ?r1"]
      by (simp add: tick_states)
    from two_writes [OF a b] Fails show ?thesis
      by (simp add: generate_image_task_def Let_def)
  next
    case (Succeeds dt)
    let ?gt = "fsub (now_float (tick dt ?r1)) (now_float ?r1)"
    let ?rd = "[(''image_url'', JStr (''/task/'' @ tid @ ''/result'')),
                (''generation_time'', JFloat ?gt)]"
    let ?r3 = "cache_result ck ?rd (tick dt ?r1)"
    let ?r4 = "update_task_status tid ''completed''
                 [(''output_path'', JStr (OUTPUT_DIR C @ ''/'' @ tid @ ''.png'')),
                  (''generation_time'', JFloat ?gt), (''user_id'', JStr u)] ?r3"
    have c: "recorded_states t ?r3 = recorded_states t ?r1"
      by (simp add: cache_result_states tick_states)
    have b: "recorded_states t ?r4 = recorded_states t ?r1 \<or>
             t = tid \<and> recorded_states t ?r4 = recorded_states t ?r1 @ [JStr ''completed'']"
      using update_task_status_states [of t tid "''completed''" _ ?r3] c by simp
    from two_writes [OF a b] Succeeds show ?thesis
      by (simp add: generate_image_task_def Let_def)
  qed
qed

lemma generate_video_task_states:
  "\<exists>xs. recorded_states t (snd (generate_video_task C gen tid p dur w h fps sd lp u r)) =
           recorded_states t r @ xs \<and>
        (t \<noteq> tid \<longrightarrow> xs = []) \<and>
        subseq xs [JStr ''processing'', JStr (terminal gen)]"
proof -
  let ?r1 = "update_task_status tid ''processing'' [(''user_id'', JStr u)] r"
  note a = update_task_status_states [of t tid "''processing''" "[(''user_id'', JStr u)]" r]
  show ?thesis
  proof (cases gen)
    case (Fails dt msg)
    let ?r2 = "update_task_status tid ''failed''
                 [(''error'', JStr msg), (''user_id'', JStr u)] (tick dt ?r1)"
    have b: "recorded_states t ?r2 = recorded_states t ?r1 \<or>
             t = tid \<and> recorded_states t ?r2 = recorded_states t ?r1 @ [JStr ''failed'']"
      using update_task_status_states [of t tid "''failed''" _ "tick dt ?r1"]
      by (simp add: tick_states)
    from two_writes [OF a b] Fails show ?thesis
      by (simp add: generate_video_task_def Let_def)
  next
    case (Succeeds dt)
    let ?gt = "fsub (now_float (tick dt ?r1)) (now_float ?r1)"
    let ?r4 = "update_task_status tid ''completed''
                 [(''output_path'', JStr (OUTPUT_DIR C @ ''/'' @ tid @ ''.mp4'')),
                  (''generation_time'', JFloat ?gt), (''user_id'', JStr u)] (tick dt ?r1)"
    have b: "recorded_states t ?r4 = recorded_states t ?r1 \<or>
             t = tid \<and> recorded_states t ?r4 = recorded_states t ?r1 @ [JStr ''completed'']"
      using update_task_status_states [of t tid "''completed''" _ "tick dt ?r1"]
      by (simp add: tick_states)
    from two_writes [OF a b] Succeeds show ?thesis
      by (simp add: generate_video_task_def Let_def)
  qed
qed

lemma run_job_states:
  "\<exists>xs. recorded_states t (snd (run_job C gen job r)) = recorded_states t r @ xs \<and>
        (t \<noteq> job_task_id job \<longrightarrow> xs = []) \<and>
        subseq xs [JStr ''processing'', JStr (terminal gen)]"
proof (cases job)
  case (ImageJob tid p w h s g sd lp ck u)
  with generate_image_task_states [of t C gen tid p w h s g sd lp ck u r]
  show ?thesis by simp
next
  case (VideoJob tid p dur w h fps sd lp u)
  with generate_video_task_states [of t C gen tid p dur w h fps sd lp u r]
  show ?thesis by simp
qed

section \<open>The video endpoint and the hand-over\<close>

lemma generate_video_start_shape:
  assumes "generate_video_start X u tid cid prompt dur w h fps sd ld r1 = (resp, j, r')"
  shows "r' = snd (publish r1) \<and>
         (resp = internal_error \<and> (j = None \<or> (\<exists>job. j = Some job \<and> job_task_id job = tid)) \<or>
          (\<exists>est job. resp = processing_response tid est cid \<and> j = Some job \<and>
             job_task_id job = tid))"
proof -
  obtain x r3 where p: "publish r1 = (x, r3)" by (cases "publish r1")
  show ?thesis
  proof (cases x)
    case (Inl e)
    with p assms show ?thesis by (auto simp: generate_video_start_def Let_def)
  next
    case (Inr v)
    with p assms show ?thesis
      by (cases "estimate_video_generation_time dur w h fps")
         (auto simp: generate_video_start_def Let_def processing_response_def)
  qed
qed

lemma generate_video_cases:
  assumes g: "generate_video C X u data tid cid r = (resp, j, r')"
  shows "\<exists>b r1. check_rate_limit u ''video'' r = (b, r1) \<and>
           (r' = r1 \<and> j = None \<or>
            r' = snd (publish r1) \<and>
              (resp = internal_error \<and>
                 (j = None \<or> (\<exists>job. j = Some job \<and> job_task_id job = tid)) \<or>
               (\<exists>est job. resp = processing_response tid est cid \<and> j = Some job \<and>
                  job_task_id job = tid)))"
proof -
  obtain b r1 where c: "check_rate_limit u ''video'' r = (b, r1)"
    by (cases "check_rate_limit u ''video'' r")
  have "r' = r1 \<and> j = None \<or>
        r' = snd (publish r1) \<and>
          (resp = internal_error \<and>
             (j = None \<or> (\<exists>job. j = Some job \<and> job_task_id job = tid)) \<or>
           (\<exists>est job. resp = processing_response tid est cid \<and> j = Some job \<and>
              job_task_id job = tid))"
  proof (cases "video_validation_error C data")
    case (Some msg)
    from generate_video_invalid [OF Some, of X u tid cid r] g c show ?thesis by simp
  next
    case None
    then obtain prompt d where pd: "data_prompt data = Some prompt" "data_duration data = Some d"
      by (auto simp: video_validation_error_def split: option.splits)
    show ?thesis
    proof (cases b)
      case False
      with c g show ?thesis by (simp add: generate_video_def)
    next
      case True
      with c g pd None have
        "generate_video_start X u tid cid prompt (min_duration d (MAX_VIDEO_DURATION C))
           (min (case data_width data of None \<Rightarrow> 512 | Some w \<Rightarrow> w) (MAX_IMAGE_SIZE C))
           (min (case data_height data of None \<Rightarrow> 512 | Some h \<Rightarrow> h) (MAX_IMAGE_SIZE C))
           (case data_fps data of None \<Rightarrow> 24 | Some f \<Rightarrow> f)
           (data_seed data) (data_lora data) r1 = (resp, j, r')"
        by (simp add: generate_video_def video_validation_error_def Let_def split: if_splits)
      from generate_video_start_shape [OF this] show ?thesis by blast
    qed
  qed
  with c show ?thesis by blast
qed

lemma generate_video_effect:
  assumes g: "generate_video C X u data tid cid r = (resp, j, r')"
  shows "clock r' = clock r \<and> (\<forall>k. k \<noteq> rate_key u ''video'' \<longrightarrow> kv r' k = kv r k) \<and>
         recorded_states t r' = recorded_states t r"
proof -
  from generate_video_cases [OF g] obtain b r1
    where c: "check_rate_limit u ''video'' r = (b, r1)"
      and r': "r' = r1 \<or> r' = snd (publish r1)"
    by blast
  note ce = check_rate_limit_effect [OF c, of t]
  obtain x r2 where pb: "publish r1 = (x, r2)" by (cases "publish r1")
  note pe = publish_effect [OF pb]
  have q: "recorded_states t r2 = recorded_states t r1"
    using pe by (intro recorded_states_quiet) auto
  from r' pb have "r' = r1 \<or> r' = r2" by simp
  then show ?thesis
  proof
    assume "r' = r1"
    with ce show ?thesis by simp
  next
    assume "r' = r2"
    with ce pe q show ?thesis by simp
  qed
qed

lemma generate_image_handover:
  assumes "generate_image C X u data tid cid r = (resp, Some job, r')"
  shows "job_task_id job = tid \<and>
         (resp = internal_error \<or> (\<exists>est. resp = processing_response tid est cid))"
  using generate_image_cases [OF assms] by (auto simp: processing_response_def)

lemma generate_video_handover:
  assumes "generate_video C X u data tid cid r = (resp, Some job, r')"
  shows "job_task_id job = tid \<and>
         (resp = internal_error \<or> (\<exists>est. resp = processing_response tid est cid))"
  using generate_video_cases [OF assms] by auto

lemma cache_result_quiet:
  "faults r = [] \<Longrightarrow>
   faults (cache_result k d r) = [] \<and> clock (cache_result k d r) = clock r"
  by (simp add: cache_result_def redis_setex_def redis_call_Nil)

lemma run_job_quiet:
  assumes "faults r = []"
  shows "recorded_states t (snd (run_job C gen job r)) =
           recorded_states t r @
             (if t = job_task_id job then [JStr ''processing'', JStr (terminal gen)] else [])"
proof -
  have f: "faults (tick d r0) = faults r0" for d r0 by (simp add: tick_def)
  show ?thesis
  proof (cases job)
    case (ImageJob tid p w h s g sd lp ck u)
    show ?thesis
      using assms ImageJob
      by (cases gen)
         (simp_all add: generate_image_task_def Let_def update_task_status_quiet tick_states f
            cache_result_quiet cache_result_states)
  next
    case (VideoJob tid p dur w h fps sd lp u)
    show ?thesis
      using assms VideoJob
      by (cases gen)
         (simp_all add: generate_video_task_def Let_def update_task_status_quiet tick_states f)
  qed
qed

section \<open>A submission writes no task record\<close>

lemma redis_empty_fields:
  "kv redis_empty = (\<lambda>k. None)" "clock redis_empty = 0" "faults redis_empty = []"
  "trace redis_empty = []"
  by (simp_all add: redis_empty_def)

lemma red_cube_miss:
  "generate_image default_CONFIG idle_extern ''demo_user'' red_cube tid cid redis_empty =
     (processing_response tid 10 cid,
      Some (image_job default_CONFIG idle_extern ''demo_user'' red_cube tid ''a red cube''),
      redis_empty\<lparr>kv := (\<lambda>k. None)(rate_key ''demo_user'' ''image'' \<mapsto> (RInt 1, Some 60)),
                   trace := [Wrote (rate_key ''demo_user'' ''image'') (RInt 1)]\<rparr>)"
  by (simp add: generate_image_def generate_image_lookup_def generate_image_miss_def
      check_rate_limit_def get_cached_result_def redis_get_def redis_setex_def redis_call_def
      publish_def lookup_def live_def red_cube_def redis_empty_def default_CONFIG_def Let_def
      rate_limit_window_def image_job_def image_cache_key_def processing_response_def
      estimate_512_512_50)




section \<open>The lifecycle of a task over a run\<close>

lemma get_task_status_states:
  "recorded_states t (snd (get_task_status tid u r)) = recorded_states t r"
proof -
  obtain x r1 where g: "get_task_info tid r = (x, r1)" by (cases "get_task_info tid r")
  then have "snd (get_task_status tid u r) = r1"
    by (simp add: get_task_status_def split: option.splits redis_value.splits)
  moreover have "recorded_states t r1 = recorded_states t r"
    using get_task_info_effect [OF g] by (intro recorded_states_quiet) auto
  ultimately show ?thesis by simp
qed

lemma get_task_result_states:
  "recorded_states t (snd (get_task_result X tid u r)) = recorded_states t r"
proof -
  obtain x r1 where g: "get_task_info tid r = (x, r1)" by (cases "get_task_info tid r")
  then have "snd (get_task_result X tid u r) = r1"
    by (simp add: get_task_result_def Let_def
        split: option.splits redis_value.splits json.splits)
  moreover have "recorded_states t r1 = recorded_states t r"
    using get_task_info_effect [OF g] by (intro recorded_states_quiet) auto
  ultimately show ?thesis by simp
qed

lemma lifecycle_code_terminal:
  "subseq xs [JStr ''processing'', JStr (terminal gen)] \<Longrightarrow> lifecycle_code xs"
  by (cases gen) (simp_all add: lifecycle_code_def)

lemma lifecycle_code_Nil: "lifecycle_code []"
  by (simp add: lifecycle_code_def)

lemma distinct_remove_nth:
  assumes "distinct xs" and "i < length xs"
  shows "distinct (take i xs @ drop (Suc i) xs) \<and> xs ! i \<notin> set (take i xs @ drop (Suc i) xs) \<and>
         set (take i xs @ drop (Suc i) xs) \<subseteq> set xs"
proof -
  from assms(2) have "xs = take i xs @ xs ! i # drop (Suc i) xs"
    by (rule id_take_nth_drop)
  then obtain a b where ab: "xs = a @ xs ! i # b" "take i xs = a" "drop (Suc i) xs = b"
    by blast
  from assms(1) ab(1) have "distinct (a @ xs ! i # b)" by simp
  then have "distinct (a @ b) \<and> xs ! i \<notin> set (a @ b)" by auto
  moreover have "set (take i xs @ drop (Suc i) xs) \<subseteq> set xs"
    by (auto dest: in_set_takeD in_set_dropD)
  ultimately show ?thesis using ab by simp
qed

lemma exec_invariant:
  assumes d: "distinct (map job_task_id (queue s))"
    and sub: "set (map job_task_id (queue s)) \<subseteq> D"
    and empty: "\<forall>t. t \<in> set (map job_task_id (queue s)) \<or> t \<notin> D \<longrightarrow>
                  recorded_states t (store s) = []"
    and life: "\<forall>t. lifecycle_code (recorded_states t (store s))"
    and new: "set (drawn ev) \<inter> D = {}"
  shows "distinct (map job_task_id (queue (exec C X ev s))) \<and>
         set (map job_task_id (queue (exec C X ev s))) \<subseteq> D \<union> set (drawn ev) \<and>
         (\<forall>t. t \<in> set (map job_task_id (queue (exec C X ev s))) \<or> t \<notin> D \<union> set (drawn ev) \<longrightarrow>
              recorded_states t (store (exec C X ev s)) = []) \<and>
         (\<forall>t. lifecycle_code (recorded_states t (store (exec C X ev s))))"
proof -
  have submit: ?thesis
    if ev: "drawn ev = [tid]"
      and ex: "exec C X ev s = \<lparr>store = r', queue = delay j (queue s)\<rparr>"
      and same: "\<forall>t. recorded_states t r' = recorded_states t (store s)"
      and job: "\<forall>job. j = Some job \<longrightarrow> job_task_id job = tid" for tid j r'
  proof -
    from new ev have fresh: "tid \<notin> D" by simp
    with sub have nq: "tid \<notin> set (map job_task_id (queue s))" by blast
    show ?thesis
    proof (cases j)
      case None
      with ex ev d sub empty life same show ?thesis by auto
    next
      case (Some jb)
      with job have "job_task_id jb = tid" by simp
      with Some ex ev d sub empty life same fresh nq show ?thesis by auto
    qed
  qed
  have quiet: ?thesis
    if ev: "drawn ev = []"
      and q: "queue (exec C X ev s) = queue s"
      and same: "\<forall>t. recorded_states t (store (exec C X ev s)) = recorded_states t (store s)"
    using that d sub empty life by simp
  show ?thesis
  proof (cases ev)
    case (SubmitImage u data tid cid)
    obtain resp j r' where g: "generate_image C X u data tid cid (store s) = (resp, j, r')"
      by (cases "generate_image C X u data tid cid (store s)")
    have 1: "\<forall>t. recorded_states t r' = recorded_states t (store s)"
      using generate_image_effect [OF g] by simp
    have 2: "\<forall>job. j = Some job \<longrightarrow> job_task_id job = tid"
      using generate_image_handover g by blast
    from SubmitImage g show ?thesis by (intro submit [OF _ _ 1 2]) simp_all
  next
    case (SubmitVideo u data tid cid)
    obtain resp j r' where g: "generate_video C X u data tid cid (store s) = (resp, j, r')"
      by (cases "generate_video C X u data tid cid (store s)")
    have 1: "\<forall>t. recorded_states t r' = recorded_states t (store s)"
      using generate_video_effect [OF g] by simp
    have 2: "\<forall>job. j = Some job \<longrightarrow> job_task_id job = tid"
      using generate_video_handover g by blast
    from SubmitVideo g show ?thesis by (intro submit [OF _ _ 1 2]) simp_all
  next
    case (Work i gen)
    show ?thesis
    proof (cases "i < length (queue s)")
      case False
      with Work show ?thesis by (intro quiet) simp_all
    next
      case True
      let ?ids = "map job_task_id (queue s)"
      let ?job = "queue s ! i"
      let ?r' = "snd (run_job C gen ?job (store s))"
      from True have il: "i < length ?ids" by simp
      note rm = distinct_remove_nth [OF d il]
      have ids': "map job_task_id (queue (exec C X ev s)) = take i ?ids @ drop (Suc i) ?ids"
        using Work True by (simp add: take_map drop_map)
      have st': "store (exec C X ev s) = ?r'" using Work True by simp
      have tid0: "?ids ! i = job_task_id ?job" using True by simp
      have inq: "job_task_id ?job \<in> set ?ids" using True by simp
      have states: "recorded_states t ?r' = recorded_states t (store s) \<and> t \<noteq> job_task_id ?job \<or>
                    t = job_task_id ?job \<and> lifecycle_code (recorded_states t ?r')" for t
      proof -
        from run_job_states [of t C gen ?job "store s"] obtain xs
          where xs: "recorded_states t ?r' = recorded_states t (store s) @ xs"
            "t \<noteq> job_task_id ?job \<longrightarrow> xs = []"
            "subseq xs [JStr ''processing'', JStr (terminal gen)]"
          by blast
        show ?thesis
        proof (cases "t = job_task_id ?job")
          case False
          with xs show ?thesis by simp
        next
          case True
          with empty inq have "recorded_states t (store s) = []" by blast
          with xs True lifecycle_code_terminal show ?thesis by simp
        qed
      qed
      have a: "distinct (map job_task_id (queue (exec C X ev s)))"
        using rm ids' by simp
      have b: "set (map job_task_id (queue (exec C X ev s))) \<subseteq> D \<union> set (drawn ev)"
        using rm ids' sub by auto
      have c: "recorded_states t (store (exec C X ev s)) = []"
        if "t \<in> set (map job_task_id (queue (exec C X ev s))) \<or> t \<notin> D \<union> set (drawn ev)" for t
      proof -
        from that rm ids' tid0 inq sub have ne: "t \<noteq> job_task_id ?job" by auto
        from that rm ids' have "t \<in> set ?ids \<or> t \<notin> D" by auto
        with empty have "recorded_states t (store s) = []" by blast
        with states [of t] ne st' show ?thesis by simp
      qed
      have e: "lifecycle_code (recorded_states t (store (exec C X ev s)))" for t
        using states [of t] life st' by auto
      show ?thesis using a b c e by blast
    qed
  next
    case (GetStatus tid u)
    then show ?thesis by (intro quiet) (simp_all add: get_task_status_states)
  next
    case (GetResult tid u)
    then show ?thesis by (intro quiet) (simp_all add: get_task_result_states)
  next
    case (Tick dt)
    then show ?thesis by (intro quiet) (simp_all add: tick_states)
  next
    case (Faults fs)
    then show ?thesis by (intro quiet) (simp_all add: recorded_states_def)
  qed
qed

lemma run_invariant:
  assumes "distinct (map job_task_id (queue s))"
    and "set (map job_task_id (queue s)) \<subseteq> D"
    and "\<forall>t. t \<in> set (map job_task_id (queue s)) \<or> t \<notin> D \<longrightarrow>
           recorded_states t (store s) = []"
    and "\<forall>t. lifecycle_code (recorded_states t (store s))"
    and "distinct (concat (map drawn evs))"
    and "set (concat (map drawn evs)) \<inter> D = {}"
  shows "\<forall>t. lifecycle_code (recorded_states t (store (run C X evs s)))"
  using assms
proof (induction evs arbitrary: s D)
  case Nil
  then show ?case by simp
next
  case (Cons ev evs)
  from Cons.prems(6) have new: "set (drawn ev) \<inter> D = {}" by auto
  note step = exec_invariant [OF Cons.prems(1-4) new, of C X]
  have 5: "distinct (concat (map drawn evs))" using Cons.prems(5) by simp
  have 6: "set (concat (map drawn evs)) \<inter> (D \<union> set (drawn ev)) = {}"
    using Cons.prems(5,6) by auto
  from Cons.IH [OF _ _ _ _ 5 6] step show ?case by simp
qed

lemma boot_fields: "store boot = redis_empty" "queue boot = []"
  by (simp_all add: boot_def)

lemma recorded_states_empty: "recorded_states t redis_empty = []"
  by (simp add: recorded_states_def redis_empty_fields List.map_filter_def)

text \<open>
  Claim C2, amended. In every run of the system (submissions with task ids that do not
  repeat, workers, queries, time passing, the store failing in any pattern) the sequence of
  states recorded for a task is a subsequence of \<open>processing\<close>, then \<open>completed\<close> or
  \<open>failed\<close>: the state \<open>queued\<close> is never recorded, nothing is recorded after a final
  state, no state is recorded twice and none after a later one; a state is missing from
  the sequence when the store lost the write.
\<close>

theorem lifecycle_of_every_task:
  assumes "distinct (concat (map drawn evs))"
  shows "lifecycle_code (recorded_states task_id (store (run C X evs boot))) \<and>
         JStr ''queued'' \<notin> set (recorded_states task_id (store (run C X evs boot)))"
proof -
  have "\<forall>t. lifecycle_code (recorded_states t (store (run C X evs boot)))"
    using assms
    by (intro run_invariant [where D = "{}"])
       (simp_all add: boot_fields recorded_states_empty lifecycle_code_Nil)
  then have l: "lifecycle_code (recorded_states task_id (store (run C X evs boot)))" by simp
  have "JStr ''queued'' \<notin> set xs" if "lifecycle_code xs" for xs
  proof
    assume q: "JStr ''queued'' \<in> set xs"
    from that consider "subseq xs [JStr ''processing'', JStr ''completed'']"
      | "subseq xs [JStr ''processing'', JStr ''failed'']"
      by (auto simp: lifecycle_code_def)
    then show False
    proof cases
      case 1
      from list_emb_set [OF 1 q] show False by auto
    next
      case 2
      from list_emb_set [OF 2 q] show False by auto
    qed
  qed
  with l show ?thesis by simp
qed

text \<open>The scenario: a submission, the worker, a status query.\<close>

theorem lifecycle_of_every_task_witness:
  "lifecycle_code
     (recorded_states ''t1''
        (store (run default_CONFIG idle_extern
                  [SubmitImage ''demo_user'' red_cube ''t1'' ''c1'', Work 0 (Succeeds 7),
                   GetStatus ''t1'' ''demo_user''] boot))) \<and>
   JStr ''queued'' \<notin>
     set (recorded_states ''t1''
            (store (run default_CONFIG idle_extern
                      [SubmitImage ''demo_user'' red_cube ''t1'' ''c1'', Work 0 (Succeeds 7),
                       GetStatus ''t1'' ''demo_user''] boot)))"
  using lifecycle_of_every_task [of "[SubmitImage ''demo_user'' red_cube ''t1'' ''c1'',
      Work 0 (Succeeds 7), GetStatus ''t1'' ''demo_user'']" "''t1''" default_CONFIG idle_extern]
  by simp

lemma job_task_id_image_job: "job_task_id (image_job C X u data tid prompt) = tid"
  by (simp add: image_job_def)

lemma red_cube_submitted:
  "exec default_CONFIG idle_extern (SubmitImage ''demo_user'' red_cube tid cid) boot =
     \<lparr>store = redis_empty\<lparr>kv := (\<lambda>k. None)(rate_key ''demo_user'' ''image'' \<mapsto> (RInt 1, Some 60)),
                           trace := [Wrote (rate_key ''demo_user'' ''image'') (RInt 1)]\<rparr>,
      queue = [image_job default_CONFIG idle_extern ''demo_user'' red_cube tid ''a red cube'']\<rparr>"
  by (simp add: boot_def red_cube_miss)

text \<open>
  Against the claim as it is worded: after a submission and its worker the states recorded
  for the task are \<open>processing, completed\<close>, which is no prefix of
  \<open>queued, processing, completed\<close>; and when the store loses the worker's first write,
  they are \<open>completed\<close> alone.
\<close>

theorem lifecycle_starts_at_processing:
  "recorded_states ''t1''
     (store (run default_CONFIG idle_extern
               [SubmitImage ''demo_user'' red_cube ''t1'' ''c1'', Work 0 (Succeeds 7)] boot)) =
     [JStr ''processing'', JStr ''completed''] \<and>
   \<not> lifecycle_spec
       (recorded_states ''t1''
          (store (run default_CONFIG idle_extern
                    [SubmitImage ''demo_user'' red_cube ''t1'' ''c1'', Work 0 (Succeeds 7)]
                    boot))) \<and>
   recorded_states ''t2''
     (store (run default_CONFIG idle_extern
               [SubmitImage ''demo_user'' red_cube ''t2'' ''c2'', Faults [True],
                Work 0 (Succeeds 7)] boot)) =
     [JStr ''completed'']"
proof -
  let ?R = "redis_empty\<lparr>kv := (\<lambda>k. None)(rate_key ''demo_user'' ''image'' \<mapsto> (RInt 1, Some 60)),
                        trace := [Wrote (rate_key ''demo_user'' ''image'') (RInt 1)]\<rparr>"
  have e: "recorded_states ''t1'' ?R = []"
    by (simp add: recorded_states_def List.map_filter_def)
  have f: "faults ?R = []" by (simp add: redis_empty_fields)
  have q: "recorded_states ''t1''
             (snd (run_job default_CONFIG (Succeeds 7)
                     (image_job default_CONFIG idle_extern ''demo_user'' red_cube ''t1''
                        ''a red cube'') ?R)) =
           recorded_states ''t1'' ?R @ [JStr ''processing'', JStr ''completed'']"
    using run_job_quiet [OF f, of "''t1''" default_CONFIG "Succeeds 7"
        "image_job default_CONFIG idle_extern ''demo_user'' red_cube ''t1'' ''a red cube''"]
    by (simp add: job_task_id_image_job)
  have a: "recorded_states ''t1''
     (store (run default_CONFIG idle_extern
               [SubmitImage ''demo_user'' red_cube ''t1'' ''c1'', Work 0 (Succeeds 7)] boot)) =
     [JStr ''processing'', JStr ''completed'']"
    by (simp only: run.simps red_cube_submitted) (simp add: q e)
  have b: "recorded_states ''t2''
     (store (run default_CONFIG idle_extern
               [SubmitImage ''demo_user'' red_cube ''t2'' ''c2'', Faults [True],
                Work 0 (Succeeds 7)] boot)) =
     [JStr ''completed'']"
    by (simp only: run.simps red_cube_submitted)
       (simp add: image_job_def generate_image_task_def
        update_task_status_def cache_result_def redis_setex_def redis_call_def tick_def
        redis_empty_fields recorded_states_def List.map_filter_def Let_def task_key_inj
        task_key_not_rate_key image_cache_key_def)
  show ?thesis using a b by (simp add: lifecycle_spec_def)
qed

section \<open>A cache hit and what the cache holds\<close>

lemma check_rate_limit_admits:
  assumes nf: "faults r = []" and room: "has_room r u e"
  shows "\<exists>r1. check_rate_limit u e r = (True, r1) \<and> faults r1 = [] \<and> clock r1 = clock r \<and>
              (\<forall>k. k \<noteq> rate_key u e \<longrightarrow> kv r1 k = kv r k)"
proof (cases "lookup r (rate_key u e)")
  case None
  from check_rate_limit_first [OF nf None] nf show ?thesis by simp
next
  case (Some ent)
  obtain v ex where ent: "ent = (v, ex)" by (cases ent)
  from room Some ent obtain c where v: "v = RInt c" and c: "c < rate_limit_of u"
    by (cases v) (auto simp: has_room_def)
  have l: "lookup r (rate_key u e) = Some (RInt c, ex)" using Some ent v by simp
  from check_rate_limit_next [OF nf l c] nf show ?thesis by simp
qed

lemma lookup_same:
  "kv r' k = kv r k \<Longrightarrow> clock r' = clock r \<Longrightarrow> lookup r' k = lookup r k"
  by (auto simp: lookup_def split: option.splits)

lemma image_cache_key_not_rate_key: "image_cache_key C X data prompt \<noteq> rate_key u e"
  by (simp add: image_cache_key_def)

lemma image_cache_key_not_task_key: "image_cache_key C X data prompt \<noteq> task_key t"
  by (simp add: image_cache_key_def)

lemma generate_image_hit:
  assumes nf: "faults r = []"
    and room: "has_room r u ''image''"
    and p: "data_prompt data = Some prompt"
    and valid: "image_validation_error data = None"
    and ent: "lookup r (image_cache_key C X data prompt) = Some (RJson d, ex)"
    and url: "map_of d ''image_url'' = Some url"
  shows "generate_image C X u data tid cid r =
           (Json 200 [(''task_id'', JStr tid), (''status'', JStr ''completed''),
                      (''image_url'', url), (''cached'', JBool True),
                      (''generation_time'', JInt 0)],
            None, snd (check_rate_limit u ''image'' r))"
proof -
  let ?key = "image_cache_key C X data prompt"
  from check_rate_limit_admits [OF nf room] obtain r1
    where c: "check_rate_limit u ''image'' r = (True, r1)" and f1: "faults r1 = []"
      and c1: "clock r1 = clock r" and k1: "\<forall>k. k \<noteq> rate_key u ''image'' \<longrightarrow> kv r1 k = kv r k"
    by blast
  from k1 image_cache_key_not_rate_key have "kv r1 ?key = kv r ?key" by blast
  with c1 ent have l1: "lookup r1 ?key = Some (RJson d, ex)"
    using lookup_same [of r1 ?key r] by simp
  have g: "get_cached_result ?key r1 = (Some (RJson d), r1)"
    using f1 l1 by (simp add: get_cached_result_def redis_get_def redis_call_Nil)
  from url have ne: "d \<noteq> []" by auto
  from p valid have v: "\<not> 1000 < length prompt"
    "\<not> ((case data_num_inference_steps data of None \<Rightarrow> 50 | Some n \<Rightarrow> n) < 1 \<or>
        100 < (case data_num_inference_steps data of None \<Rightarrow> 50 | Some n \<Rightarrow> n))"
    by (auto simp: image_validation_error_def Let_def split: if_splits)
  have "generate_cache_key X prompt
          (min (case data_width data of None \<Rightarrow> 512 | Some w \<Rightarrow> w) (MAX_IMAGE_SIZE C))
          (min (case data_height data of None \<Rightarrow> 512 | Some h \<Rightarrow> h) (MAX_IMAGE_SIZE C))
          (case data_num_inference_steps data of None \<Rightarrow> 50 | Some n \<Rightarrow> n)
          (case data_guidance_scale data of None \<Rightarrow> PyFloat 15 (- 1) | Some g \<Rightarrow> g)
          (data_seed data) (data_lora data) = ?key"
    by (simp add: image_cache_key_def)
  with c g ne url p v show ?thesis
    by (simp add: generate_image_def generate_image_lookup_def Let_def)
qed

lemma image_task_caches_own_reference:
  assumes nf: "faults r = []" and ck: "ck \<noteq> task_key tid"
  shows "\<exists>gt. lookup (snd (generate_image_task C (Succeeds dt) tid p w h s g sd lp ck u r)) ck =
           Some (RJson [(''image_url'', JStr (''/task/'' @ tid @ ''/result'')),
                        (''generation_time'', JFloat gt)],
                 Some (clock r + dt + cache_ttl))"
  using assms
  by (simp add: generate_image_task_def update_task_status_def cache_result_def
      redis_setex_def redis_call_Nil tick_def lookup_def live_def Let_def)

end
